theory Spec2Isabelle
  imports Complex_Main
begin

section \<open>Python values: exceptions and float arithmetic\<close>

text \<open>
  The program is Python. Every exception it can raise is a value of \<open>error\<close>, and a
  computation that may raise returns \<open>error + 'a\<close> (\<open>Inl\<close> is the raised exception).
\<close>

datatype error = ZeroDivisionError | OverflowError | ValueError | TypeError | IndexError | OSError

text \<open>
  Python's \<open>float\<close> is an IEEE double. Its rounding is not modelled: the operations of
  the runtime are a parameter \<open>fo\<close> of every function, so that each theorem holds for
  whatever the float operations compute. What is modelled is which operations can raise:
  \<^item> \<open>+\<close>, \<open>-\<close>, \<open>*\<close> on floats never raise (\<open>fadd\<close>, \<open>fsub\<close>, \<open>fmul\<close>);
  \<^item> \<open>x / y\<close> raises ZeroDivisionError exactly when \<open>y == 0.0\<close> (\<open>is_zero\<close>), and is
    the quotient \<open>fquot\<close> otherwise (see \<open>truediv\<close>);
  \<^item> \<open>math.sqrt\<close> raises ValueError on a negative argument, \<open>x ** y\<close> raises
    OverflowError when the result is out of range, \<open>int(x)\<close> raises on an infinity or a
    NaN, and \<open>float(s)\<close> raises ValueError on a string that is no float literal.
  \<open>lit q\<close> is the float a decimal literal of value \<open>q\<close> denotes, \<open>from_int\<close> the
  conversion of an \<open>int\<close> operand in mixed arithmetic.
\<close>

record 'a float_ops =
  lit :: "rat \<Rightarrow> 'a"
  from_int :: "int \<Rightarrow> 'a"
  fadd :: "'a \<Rightarrow> 'a \<Rightarrow> 'a"
  fsub :: "'a \<Rightarrow> 'a \<Rightarrow> 'a"
  fmul :: "'a \<Rightarrow> 'a \<Rightarrow> 'a"
  fquot :: "'a \<Rightarrow> 'a \<Rightarrow> 'a"
  is_zero :: "'a \<Rightarrow> bool"
  math_sqrt :: "'a \<Rightarrow> error + 'a"
  float_pow :: "'a \<Rightarrow> 'a \<Rightarrow> error + 'a"
  int_of_float :: "'a \<Rightarrow> error + int"
  float_of_str :: "string \<Rightarrow> 'a option"

definition truediv :: "'a float_ops \<Rightarrow> 'a \<Rightarrow> 'a \<Rightarrow> error + 'a" where
  "truediv fo x y = (if is_zero fo y then Inl ZeroDivisionError else Inr (fquot fo x y))"

section \<open>Particles and clusters\<close>

text \<open>
  \<open>Particle\<close> builds the tuple \<open>(mass, [px, py, pz], [vx, vy, vz], [0.0, 0.0, 0.0],
  [0.0, 0.0, 0.0])\<close>. The four lists are fresh at every call, so no two particles (and no
  two fields) share a list, and the in-place updates of the methods are updates of one
  field of one particle. The fields carry the names of the data model: position,
  velocity, acceleration and previous acceleration (\<open>r\<close>, \<open>v\<close>, \<open>a\<close>, \<open>oa\<close> in the
  methods' patterns).
\<close>

type_synonym 'a vec3 = "'a \<times> 'a \<times> 'a"

record 'a particle =
  mass :: 'a
  position :: "'a vec3"
  velocity :: "'a vec3"
  acceleration :: "'a vec3"
  previous_acceleration :: "'a vec3"

type_synonym 'a cluster = "'a particle list"

definition Particle :: "'a float_ops \<Rightarrow> 'a \<Rightarrow> 'a \<Rightarrow> 'a \<Rightarrow> 'a \<Rightarrow> 'a \<Rightarrow> 'a \<Rightarrow> 'a \<Rightarrow> 'a particle" where
  "Particle fo m px py pz vx vy vz =
     \<lparr>mass = m, position = (px, py, pz), velocity = (vx, vy, vz),
      acceleration = (lit fo 0, lit fo 0, lit fo 0),
      previous_acceleration = (lit fo 0, lit fo 0, lit fo 0)\<rparr>"

section \<open>Cluster.get\_energy\<close>

text \<open>The first loop: \<open>ke += 0.5 * mass * (vx * vx + vy * vy + vz * vz)\<close>.\<close>

fun kinetic_loop :: "'a float_ops \<Rightarrow> 'a \<Rightarrow> 'a cluster \<Rightarrow> 'a" where
  "kinetic_loop fo ke [] = ke"
| "kinetic_loop fo ke (p # ps) =
     (case velocity p of (vx, vy, vz) \<Rightarrow>
        kinetic_loop fo
          (fadd fo ke
             (fmul fo (fmul fo (lit fo (1/2)) (mass p))
                (fadd fo (fadd fo (fmul fo vx vx) (fmul fo vy vy)) (fmul fo vz vz))))
          ps)"

text \<open>\<open>itertools.combinations(self, 2)\<close>: the pairs of elements in the order of their
  positions in the list.\<close>

fun combinations2 :: "'b list \<Rightarrow> ('b \<times> 'b) list" where
  "combinations2 [] = []"
| "combinations2 (x # xs) = map (Pair x) xs @ combinations2 xs"

text \<open>The second loop: \<open>pe -= (mass1 * mass2) / sqrt(dx * dx + dy * dy + dz * dz)\<close>.
  The square root is evaluated before the division, so its exception comes first.\<close>

fun potential_loop :: "'a float_ops \<Rightarrow> 'a \<Rightarrow> ('a particle \<times> 'a particle) list \<Rightarrow> error + 'a" where
  "potential_loop fo pe [] = Inr pe"
| "potential_loop fo pe ((p1, p2) # rest) =
     (case position p1 of (px1, py1, pz1) \<Rightarrow>
     (case position p2 of (px2, py2, pz2) \<Rightarrow>
       (let dx = fsub fo px1 px2;
            dy = fsub fo py1 py2;
            dz = fsub fo pz1 pz2
        in (case math_sqrt fo (fadd fo (fadd fo (fmul fo dx dx) (fmul fo dy dy)) (fmul fo dz dz)) of
              Inl e \<Rightarrow> Inl e
            | Inr d \<Rightarrow>
                (case truediv fo (fmul fo (mass p1) (mass p2)) d of
                   Inl e \<Rightarrow> Inl e
                 | Inr t \<Rightarrow> potential_loop fo (fsub fo pe t) rest)))))"

definition get_energy :: "'a float_ops \<Rightarrow> 'a cluster \<Rightarrow> error + 'a" where
  "get_energy fo self =
     (let ke = kinetic_loop fo (lit fo 0) self
      in case potential_loop fo (lit fo 0) (combinations2 self) of
           Inl e \<Rightarrow> Inl e
         | Inr pe \<Rightarrow> Inr (fadd fo ke pe))"

text \<open>
  The call \<open>cluster.get_energy()\<close> as a transformer of the cluster. The loops of the
  method bind the fields of the particles to local names and assign to local names only
  (\<open>ke\<close>, \<open>pe\<close>, \<open>dx\<close>, \<open>dy\<close>, \<open>dz\<close>); no statement of the method stores into an
  element of a position, velocity or acceleration list. The cluster after a call that
  returns is therefore the cluster before it.
\<close>

definition get_energy_call :: "'a float_ops \<Rightarrow> 'a cluster \<Rightarrow> error + ('a \<times> 'a cluster)" where
  "get_energy_call fo self =
     (case get_energy fo self of
        Inl e \<Rightarrow> Inl e
      | Inr en \<Rightarrow> Inr (en, self))"

section \<open>Cluster.accelerate\<close>

text \<open>The first loop: \<open>oa[0], oa[1], oa[2] = a\<close> and \<open>a[0], a[1], a[2] = 0.0, 0.0, 0.0\<close>.\<close>

fun reset_loop :: "'a float_ops \<Rightarrow> 'a cluster \<Rightarrow> 'a cluster" where
  "reset_loop fo [] = []"
| "reset_loop fo (p # ps) =
     p\<lparr>previous_acceleration := acceleration p,
       acceleration := (lit fo 0, lit fo 0, lit fo 0)\<rparr> # reset_loop fo ps"

text \<open>
  The body of the inner loop for the particle \<open>i\<close> of the outer loop and the index \<open>j\<close>
  of the inner one. \<open>mass1\<close> and \<open>(px1, py1, pz1)\<close> were unpacked when the outer iteration
  began; \<open>a1\<close> and \<open>a2\<close> are the acceleration lists of the particles \<open>i\<close> and \<open>j\<close>,
  updated in place. \<open>self[j]\<close> raises IndexError out of range.
\<close>

definition pair_body :: "'a float_ops \<Rightarrow> nat \<Rightarrow> 'a \<Rightarrow> 'a vec3 \<Rightarrow> nat \<Rightarrow> 'a cluster \<Rightarrow> error + 'a cluster" where
  "pair_body fo i mass1 r1 j self =
     (if length self \<le> j then Inl IndexError
      else
       (case r1 of (px1, py1, pz1) \<Rightarrow>
       (case position (self ! j) of (px2, py2, pz2) \<Rightarrow>
         (let mass2 = mass (self ! j);
              dx = fsub fo px1 px2;
              dy = fsub fo py1 py2;
              dz = fsub fo pz1 pz2
          in (case float_pow fo (fadd fo (fadd fo (fmul fo dx dx) (fmul fo dy dy)) (fmul fo dz dz))
                     (lit fo (3/2)) of
                Inl e \<Rightarrow> Inl e
              | Inr distance_cube \<Rightarrow>
                  (case truediv fo mass2 distance_cube of
                     Inl e \<Rightarrow> Inl e
                   | Inr tmp \<Rightarrow>
                      (let self1 = (case acceleration (self ! i) of (ax, ay, az) \<Rightarrow>
                             self[i := (self ! i)\<lparr>acceleration :=
                               (fsub fo ax (fmul fo tmp dx),
                                fsub fo ay (fmul fo tmp dy),
                                fsub fo az (fmul fo tmp dz))\<rparr>])
                       in (case truediv fo mass1 distance_cube of
                             Inl e \<Rightarrow> Inl e
                           | Inr tmp' \<Rightarrow>
                               (case acceleration (self1 ! j) of (bx, by, bz) \<Rightarrow>
                                  Inr (self1[j := (self1 ! j)\<lparr>acceleration :=
                                    (fadd fo bx (fmul fo tmp' dx),
                                     fadd fo by (fmul fo tmp' dy),
                                     fadd fo bz (fmul fo tmp' dz))\<rparr>]))))))))))"

text \<open>\<open>for i in range(i + 1, nb_particules)\<close>, over the indices of the range.\<close>

fun inner_loop :: "'a float_ops \<Rightarrow> nat \<Rightarrow> 'a \<Rightarrow> 'a vec3 \<Rightarrow> nat list \<Rightarrow> 'a cluster \<Rightarrow> error + 'a cluster" where
  "inner_loop fo i mass1 r1 [] self = Inr self"
| "inner_loop fo i mass1 r1 (j # js) self =
     (case pair_body fo i mass1 r1 j self of
        Inl e \<Rightarrow> Inl e
      | Inr self' \<Rightarrow> inner_loop fo i mass1 r1 js self')"

text \<open>\<open>for i, (mass1, (px1, py1, pz1), _, a1, _) in enumerate(self)\<close>, over the indices
  that \<open>enumerate\<close> yields; \<open>nb\<close> is \<open>nb_particules = len(self)\<close>.\<close>

fun outer_loop :: "'a float_ops \<Rightarrow> nat \<Rightarrow> nat list \<Rightarrow> 'a cluster \<Rightarrow> error + 'a cluster" where
  "outer_loop fo nb [] self = Inr self"
| "outer_loop fo nb (i # is) self =
     (case inner_loop fo i (mass (self ! i)) (position (self ! i)) [Suc i..<nb] self of
        Inl e \<Rightarrow> Inl e
      | Inr self' \<Rightarrow> outer_loop fo nb is self')"

definition accelerate :: "'a float_ops \<Rightarrow> 'a cluster \<Rightarrow> error + 'a cluster" where
  "accelerate fo self =
     (let self0 = reset_loop fo self
      in outer_loop fo (length self0) [0..<length self0] self0)"

section \<open>Cluster.step\<close>

text \<open>The first loop: \<open>r[k] += dt * v[k] + half_dt_square * a[k]\<close>.\<close>

fun position_loop :: "'a float_ops \<Rightarrow> 'a \<Rightarrow> 'a \<Rightarrow> 'a cluster \<Rightarrow> 'a cluster" where
  "position_loop fo dt half_dt_square [] = []"
| "position_loop fo dt half_dt_square (p # ps) =
     (case position p of (rx, ry, rz) \<Rightarrow>
      case velocity p of (vx, vy, vz) \<Rightarrow>
      case acceleration p of (ax, ay, az) \<Rightarrow>
        p\<lparr>position :=
            (fadd fo rx (fadd fo (fmul fo dt vx) (fmul fo half_dt_square ax)),
             fadd fo ry (fadd fo (fmul fo dt vy) (fmul fo half_dt_square ay)),
             fadd fo rz (fadd fo (fmul fo dt vz) (fmul fo half_dt_square az)))\<rparr>
        # position_loop fo dt half_dt_square ps)"

text \<open>The last loop: \<open>v[k] += half_dt * (a[k] + oa[k])\<close>.\<close>

fun velocity_loop :: "'a float_ops \<Rightarrow> 'a \<Rightarrow> 'a cluster \<Rightarrow> 'a cluster" where
  "velocity_loop fo half_dt [] = []"
| "velocity_loop fo half_dt (p # ps) =
     (case velocity p of (vx, vy, vz) \<Rightarrow>
      case acceleration p of (ax, ay, az) \<Rightarrow>
      case previous_acceleration p of (oax, oay, oaz) \<Rightarrow>
        p\<lparr>velocity :=
            (fadd fo vx (fmul fo half_dt (fadd fo ax oax)),
             fadd fo vy (fmul fo half_dt (fadd fo ay oay)),
             fadd fo vz (fmul fo half_dt (fadd fo az oaz)))\<rparr>
        # velocity_loop fo half_dt ps)"

definition step :: "'a float_ops \<Rightarrow> 'a \<Rightarrow> 'a cluster \<Rightarrow> error + 'a cluster" where
  "step fo dt self =
     (let half_dt_square = fmul fo (fmul fo (lit fo (1/2)) dt) dt;
          self1 = position_loop fo dt half_dt_square self
      in case accelerate fo self1 of
           Inl e \<Rightarrow> Inl e
         | Inr self2 \<Rightarrow>
             (let half_dt = fmul fo (lit fo (1/2)) dt
              in Inr (velocity_loop fo half_dt self2)))"

section \<open>The driver\<close>

text \<open>
  \<open>str.split()\<close> with no argument: the maximal runs of characters that are not
  whitespace. A \<open>char\<close> stands for the code point of the same number; the whitespace
  of \<open>str\<close> below 256 is \<open>\t \n \v \f \r\<close>, \<open>0x1c\<close> to \<open>0x1f\<close>, the space,
  \<open>0x85\<close> and \<open>0xa0\<close>.
\<close>

definition isspace :: "char \<Rightarrow> bool" where
  "isspace ch = (let n = (of_char ch :: nat)
                 in (9 \<le> n \<and> n \<le> 13) \<or> (28 \<le> n \<and> n \<le> 32) \<or> n = 133 \<or> n = 160)"

fun split_loop :: "string \<Rightarrow> string \<Rightarrow> string list" where
  "split_loop cur [] = (if cur = [] then [] else [rev cur])"
| "split_loop cur (ch # s) =
     (if isspace ch then (if cur = [] then split_loop [] s else rev cur # split_loop [] s)
      else split_loop (ch # cur) s)"

definition str_split :: "string \<Rightarrow> string list" where
  "str_split s = split_loop [] s"

text \<open>\<open>[float(x) for x in tokens]\<close>: the first token that is no float literal raises
  ValueError.\<close>

fun floats_of :: "'a float_ops \<Rightarrow> string list \<Rightarrow> error + 'a list" where
  "floats_of fo [] = Inr []"
| "floats_of fo (x # xs) =
     (case float_of_str fo x of
        None \<Rightarrow> Inl ValueError
      | Some y \<Rightarrow>
          (case floats_of fo xs of
             Inl e \<Rightarrow> Inl e
           | Inr ys \<Rightarrow> Inr (y # ys)))"

text \<open>\<open>Particle(*args)\<close>: a call with a number of arguments other than seven raises
  TypeError.\<close>

fun Particle_call :: "'a float_ops \<Rightarrow> 'a list \<Rightarrow> error + 'a particle" where
  "Particle_call fo [m, px, py, pz, vx, vy, vz] = Inr (Particle fo m px py pz vx vy vz)"
| "Particle_call fo args = Inl TypeError"

text \<open>The body of the loading loop, with its \<open>except TypeError: pass\<close>.\<close>

definition load_line :: "'a float_ops \<Rightarrow> string \<Rightarrow> 'a cluster \<Rightarrow> error + 'a cluster" where
  "load_line fo line cluster =
     (case floats_of fo (drop 1 (str_split line)) of
        Inl e \<Rightarrow> Inl e
      | Inr args \<Rightarrow>
          (case Particle_call fo args of
             Inr p \<Rightarrow> Inr (cluster @ [p])
           | Inl TypeError \<Rightarrow> Inr cluster
           | Inl e \<Rightarrow> Inl e))"

fun load_lines :: "'a float_ops \<Rightarrow> string list \<Rightarrow> 'a cluster \<Rightarrow> error + 'a cluster" where
  "load_lines fo [] cluster = Inr cluster"
| "load_lines fo (line # rest) cluster =
     (case load_line fo line cluster of
        Inl e \<Rightarrow> Inl e
      | Inr cluster' \<Rightarrow> load_lines fo rest cluster')"

text \<open>\<open>try: time_end = float(sys.argv[2])\<close>, \<open>except IndexError: time_end = 10.\<close>\<close>

definition read_time_end :: "'a float_ops \<Rightarrow> string list \<Rightarrow> error + 'a" where
  "read_time_end fo argv =
     (if length argv \<le> 2 then Inr (lit fo 10)
      else case float_of_str fo (argv ! 2) of
             None \<Rightarrow> Inl ValueError
           | Some t \<Rightarrow> Inr t)"

text \<open>
  The state of the module while the main loop runs. A printed line is kept as the float
  values it formats; the wall clock is not modelled. \<open>step_calls\<close> is a ghost counter: it
  is not a variable of the program, and goes up by one where \<open>cluster.step\<close> is called.
\<close>

datatype 'a printed = Progress 'a 'a 'a | Final 'a | Run_in

record 'a main_state =
  cluster :: "'a cluster"
  old_energy :: 'a
  energy0 :: 'a
  energy :: 'a
  printed_lines :: "'a printed list"
  step_calls :: nat

text \<open>\<open>range(1, n)\<close>.\<close>

definition range1 :: "int \<Rightarrow> int list" where
  "range1 n = [1..n - 1]"

text \<open>The body of the main loop for the loop variable \<open>step\<close> (here \<open>k\<close>).\<close>

definition loop_body :: "'a float_ops \<Rightarrow> 'a \<Rightarrow> int \<Rightarrow> 'a main_state \<Rightarrow> error + 'a main_state" where
  "loop_body fo time_step k st =
     (case step fo time_step (cluster st) of
        Inl e \<Rightarrow> Inl e
      | Inr c \<Rightarrow>
          (let st1 = st\<lparr>cluster := c, step_calls := Suc (step_calls st)\<rparr>
           in if k mod 100 = 0 then
                (case get_energy fo c of
                   Inl e \<Rightarrow> Inl e
                 | Inr en \<Rightarrow>
                     (case truediv fo (fsub fo en (old_energy st1)) (old_energy st1) of
                        Inl e \<Rightarrow> Inl e
                      | Inr drift \<Rightarrow>
                          Inr (st1\<lparr>energy := en,
                                   printed_lines := printed_lines st1 @
                                     [Progress (fmul fo time_step (from_int fo k)) en drift],
                                   old_energy := en\<rparr>)))
              else Inr st1))"

fun main_loop :: "'a float_ops \<Rightarrow> 'a \<Rightarrow> int list \<Rightarrow> 'a main_state \<Rightarrow> error + 'a main_state" where
  "main_loop fo time_step [] st = Inr st"
| "main_loop fo time_step (k # ks) st =
     (case loop_body fo time_step k st of
        Inl e \<Rightarrow> Inl e
      | Inr st' \<Rightarrow> main_loop fo time_step ks st')"

text \<open>
  The program: \<open>argv\<close> is \<open>sys.argv\<close>, and \<open>files\<close> gives the lines of the files that
  \<open>open\<close> can read. An exception that reaches the top ends the run.
\<close>

definition main :: "'a float_ops \<Rightarrow> string list \<Rightarrow> (string \<Rightarrow> string list option) \<Rightarrow> error + 'a main_state" where
  "main fo argv files =
     (case read_time_end fo argv of
        Inl e \<Rightarrow> Inl e
      | Inr time_end \<Rightarrow>
         (let time_step = lit fo (1/1000)
          in if length argv \<le> 1 then Inl IndexError
             else
              (case files (argv ! 1) of
                 None \<Rightarrow> Inl OSError
               | Some input_file \<Rightarrow>
              (case load_lines fo input_file [] of
                 Inl e \<Rightarrow> Inl e
               | Inr loaded \<Rightarrow>
              (case accelerate fo loaded of
                 Inl e \<Rightarrow> Inl e
               | Inr c0 \<Rightarrow>
              (case truediv fo time_end time_step of
                 Inl e \<Rightarrow> Inl e
               | Inr q \<Rightarrow>
              (case int_of_float fo (fadd fo q (from_int fo 1)) of
                 Inl e \<Rightarrow> Inl e
               | Inr n \<Rightarrow>
              (case main_loop fo time_step (range1 n)
                      \<lparr>cluster = c0, old_energy = lit fo (- (1/4)), energy0 = lit fo (- (1/4)),
                       energy = lit fo (- (1/4)), printed_lines = [], step_calls = 0\<rparr> of
                 Inl e \<Rightarrow> Inl e
               | Inr st \<Rightarrow>
              (case truediv fo (fsub fo (energy st) (energy0 st)) (energy0 st) of
                 Inl e \<Rightarrow> Inl e
               | Inr drift \<Rightarrow>
                   Inr (st\<lparr>printed_lines := printed_lines st @ [Final drift, Run_in]\<rparr>))))))))))"

section \<open>Instances of the arithmetic for evaluation\<close>

text \<open>
  \<open>exact_ops\<close> computes in the reals: it has no rounding, no underflow or overflow, no
  infinity and no NaN. A double differs from it wherever rounding decides, for instance
  in \<open>int(0.043 / 0.001 + 1)\<close> or in the square of \<open>1e-200\<close>. It is used to evaluate
  the program only at inputs on which every operation of the run is exact in doubles or
  decides alike, and no statement about Python for every input rests on it. Its
  \<open>float_of_str\<close> reads plain decimal literals (an optional sign, digits, an optional
  point and digits); Python's \<open>float\<close> accepts more (exponents such as \<open>1e0\<close>,
  \<open>inf\<close>, \<open>nan\<close>, underscores, surrounding whitespace).
\<close>

definition digit :: "char \<Rightarrow> nat option" where
  "digit ch = (let n = (of_char ch :: nat) in if 48 \<le> n \<and> n \<le> 57 then Some (n - 48) else None)"

fun digits :: "nat \<Rightarrow> string \<Rightarrow> nat option" where
  "digits acc [] = Some acc"
| "digits acc (ch # s) = (case digit ch of None \<Rightarrow> None | Some d \<Rightarrow> digits (10 * acc + d) s)"

definition unsigned_decimal :: "string \<Rightarrow> rat option" where
  "unsigned_decimal s =
     (let ip = takeWhile (\<lambda>ch. ch \<noteq> CHR ''.'') s;
          fp = drop 1 (dropWhile (\<lambda>ch. ch \<noteq> CHR ''.'') s)
      in if ip = [] \<and> fp = [] then None
         else case digits 0 ip of
                None \<Rightarrow> None
              | Some a \<Rightarrow>
                  (case digits 0 fp of
                     None \<Rightarrow> None
                   | Some b \<Rightarrow> Some (of_nat a + of_nat b / 10 ^ length fp)))"

definition decimal :: "string \<Rightarrow> rat option" where
  "decimal s =
     (case s of
        [] \<Rightarrow> None
      | ch # t \<Rightarrow>
          if ch = CHR ''-'' then map_option uminus (unsigned_decimal t)
          else if ch = CHR ''+'' then unsigned_decimal t
          else unsigned_decimal s)"

definition exact_ops :: "real float_ops" where
  "exact_ops =
     \<lparr>lit = of_rat, from_int = of_int,
      fadd = (+), fsub = (-), fmul = (*), fquot = (/),
      is_zero = (\<lambda>x. x = 0),
      math_sqrt = (\<lambda>x. if x < 0 then Inl ValueError else Inr (sqrt x)),
      float_pow = (\<lambda>x y. Inr (x powr y)),
      int_of_float = (\<lambda>x. Inr (if x < 0 then \<lceil>x\<rceil> else \<lfloor>x\<rfloor>)),
      float_of_str = (\<lambda>s. map_option of_rat (decimal s))\<rparr>"

text \<open>
  \<open>under_ops\<close> is \<open>exact_ops\<close> with the underflow of a product: a product of magnitude
  below \<open>2^-1075\<close>, half the least positive double, is zero, as it is in doubles under
  rounding to nearest.
\<close>

definition under_ops :: "real float_ops" where
  "under_ops = exact_ops\<lparr>fmul := (\<lambda>x y. if \<bar>x * y\<bar> < 1 / 2 ^ 1075 then 0 else x * y)\<rparr>"

section \<open>The operations as the specification words them\<close>

text \<open>Vectors of three components, with the same float operations.\<close>

fun vadd :: "'a float_ops \<Rightarrow> 'a vec3 \<Rightarrow> 'a vec3 \<Rightarrow> 'a vec3" where
  "vadd fo (ux, uy, uz) (wx, wy, wz) = (fadd fo ux wx, fadd fo uy wy, fadd fo uz wz)"

fun vsub :: "'a float_ops \<Rightarrow> 'a vec3 \<Rightarrow> 'a vec3 \<Rightarrow> 'a vec3" where
  "vsub fo (ux, uy, uz) (wx, wy, wz) = (fsub fo ux wx, fsub fo uy wy, fsub fo uz wz)"

fun scale :: "'a float_ops \<Rightarrow> 'a \<Rightarrow> 'a vec3 \<Rightarrow> 'a vec3" where
  "scale fo s (ux, uy, uz) = (fmul fo s ux, fmul fo s uy, fmul fo s uz)"

fun dot :: "'a float_ops \<Rightarrow> 'a vec3 \<Rightarrow> 'a vec3 \<Rightarrow> 'a" where
  "dot fo (ux, uy, uz) (wx, wy, wz) =
     fadd fo (fadd fo (fmul fo ux wx) (fmul fo uy wy)) (fmul fo uz wz)"

definition zero_vector :: "'a float_ops \<Rightarrow> 'a vec3" where
  "zero_vector fo = (lit fo 0, lit fo 0, lit fo 0)"

text \<open>The unordered pairs \<open>(i, j)\<close> with \<open>i < j < n\<close>, in lexicographic order.\<close>

definition index_pairs :: "nat \<Rightarrow> (nat \<times> nat) list" where
  "index_pairs n = concat (map (\<lambda>i. map (Pair i) [Suc i..<n]) [0..<n])"

text \<open>
  \<open>distance_cubed = (delta . delta) ^ 1.5\<close> for \<open>delta = position[i] - position[j]\<close>.
\<close>

definition distance_cubed :: "'a float_ops \<Rightarrow> 'a vec3 \<Rightarrow> 'a vec3 \<Rightarrow> error + 'a" where
  "distance_cubed fo ri rj = (let delta = vsub fo ri rj in float_pow fo (dot fo delta delta) (lit fo (3/2)))"

text \<open>
  The contribution of the pair \<open>(i, j)\<close> to an array \<open>accs\<close> of accelerations, for the
  masses \<open>ms\<close> and the positions \<open>rs\<close>:
  \<open>a[i] -= (mass[j] / distance_cubed) * delta\<close> and
  \<open>a[j] += (mass[i] / distance_cubed) * delta\<close>.
\<close>

definition contribute :: "'a float_ops \<Rightarrow> 'a list \<Rightarrow> 'a vec3 list \<Rightarrow> nat \<times> nat \<Rightarrow> 'a vec3 list \<Rightarrow> error + 'a vec3 list" where
  "contribute fo ms rs ij accs =
     (case ij of (i, j) \<Rightarrow>
       (let delta = vsub fo (rs ! i) (rs ! j)
        in (case distance_cubed fo (rs ! i) (rs ! j) of
              Inl e \<Rightarrow> Inl e
            | Inr d3 \<Rightarrow>
                (case truediv fo (ms ! j) d3 of
                   Inl e \<Rightarrow> Inl e
                 | Inr sj \<Rightarrow>
                     (case truediv fo (ms ! i) d3 of
                        Inl e \<Rightarrow> Inl e
                      | Inr si \<Rightarrow>
                          (let accs1 = accs[i := vsub fo (accs ! i) (scale fo sj delta)]
                           in Inr (accs1[j := vadd fo (accs1 ! j) (scale fo si delta)])))))))"

text \<open>The contributions of a list of pairs, accumulated in the order of the list.\<close>

fun accumulate :: "'a float_ops \<Rightarrow> 'a list \<Rightarrow> 'a vec3 list \<Rightarrow> (nat \<times> nat) list \<Rightarrow> 'a vec3 list \<Rightarrow> error + 'a vec3 list" where
  "accumulate fo ms rs [] accs = Inr accs"
| "accumulate fo ms rs (ij # rest) accs =
     (case contribute fo ms rs ij accs of
        Inl e \<Rightarrow> Inl e
      | Inr accs' \<Rightarrow> accumulate fo ms rs rest accs')"

text \<open>The accelerations of the force kernel: the contributions of every pair, from the
  zero vector for every particle.\<close>

definition pairwise_accelerations :: "'a float_ops \<Rightarrow> 'a cluster \<Rightarrow> error + 'a vec3 list" where
  "pairwise_accelerations fo c =
     accumulate fo (map mass c) (map position c) (index_pairs (length c))
       (replicate (length c) (zero_vector fo))"

text \<open>The cluster \<open>c\<close> with the accelerations \<open>accs\<close>, particle by particle.\<close>

definition set_accelerations :: "'a cluster \<Rightarrow> 'a vec3 list \<Rightarrow> 'a cluster" where
  "set_accelerations c accs = map (\<lambda>(p, a). p\<lparr>acceleration := a\<rparr>) (zip c accs)"

text \<open>The hand-off of the kernel: the acceleration at entry becomes the previous one.\<close>

definition hand_off :: "'a cluster \<Rightarrow> 'a cluster" where
  "hand_off c = map (\<lambda>p. p\<lparr>previous_acceleration := acceleration p\<rparr>) c"

text \<open>
  No pair is singular for the kernel: every \<open>distance_cubed\<close> is computed and is not
  zero. In exact arithmetic that is the case when the positions are pairwise distinct.
\<close>

definition singular_free :: "'a float_ops \<Rightarrow> 'a cluster \<Rightarrow> bool" where
  "singular_free fo c =
     list_all (\<lambda>(i, j). case distance_cubed fo (position (c ! i)) (position (c ! j)) of
                           Inl e \<Rightarrow> False
                         | Inr d3 \<Rightarrow> \<not> is_zero fo d3)
       (index_pairs (length c))"


subsection \<open>The energy\<close>

text \<open>Kinetic energy: the sum over the particles of \<open>0.5 * mass * |velocity|^2\<close>.\<close>

definition kinetic_energy :: "'a float_ops \<Rightarrow> 'a cluster \<Rightarrow> 'a" where
  "kinetic_energy fo c =
     foldl (\<lambda>ke p. fadd fo ke (fmul fo (fmul fo (lit fo (1/2)) (mass p))
                                  (dot fo (velocity p) (velocity p))))
       (lit fo 0) c"

text \<open>The Euclidean distance \<open>|position[i] - position[j]|\<close>.\<close>

definition distance :: "'a float_ops \<Rightarrow> 'a vec3 \<Rightarrow> 'a vec3 \<Rightarrow> error + 'a" where
  "distance fo ri rj = (let delta = vsub fo ri rj in math_sqrt fo (dot fo delta delta))"

text \<open>\<open>(mass[i] * mass[j]) / |position[i] - position[j]|\<close>.\<close>

definition pair_potential :: "'a float_ops \<Rightarrow> 'a cluster \<Rightarrow> nat \<times> nat \<Rightarrow> error + 'a" where
  "pair_potential fo c ij =
     (case ij of (i, j) \<Rightarrow>
       (case distance fo (position (c ! i)) (position (c ! j)) of
          Inl e \<Rightarrow> Inl e
        | Inr d \<Rightarrow> truediv fo (fmul fo (mass (c ! i)) (mass (c ! j))) d))"

text \<open>Potential energy: the term of every pair, subtracted in the order of the list.\<close>

fun subtract_pairs :: "'a float_ops \<Rightarrow> 'a cluster \<Rightarrow> 'a \<Rightarrow> (nat \<times> nat) list \<Rightarrow> error + 'a" where
  "subtract_pairs fo c pe [] = Inr pe"
| "subtract_pairs fo c pe (ij # rest) =
     (case pair_potential fo c ij of
        Inl e \<Rightarrow> Inl e
      | Inr t \<Rightarrow> subtract_pairs fo c (fsub fo pe t) rest)"

definition potential_energy :: "'a float_ops \<Rightarrow> 'a cluster \<Rightarrow> error + 'a" where
  "potential_energy fo c = subtract_pairs fo c (lit fo 0) (index_pairs (length c))"

definition total_energy :: "'a float_ops \<Rightarrow> 'a cluster \<Rightarrow> error + 'a" where
  "total_energy fo c =
     (case potential_energy fo c of
        Inl e \<Rightarrow> Inl e
      | Inr pe \<Rightarrow> Inr (fadd fo (kinetic_energy fo c) pe))"

text \<open>No pair is singular for the energy: every distance is computed and is not zero.\<close>

definition distances_nonzero :: "'a float_ops \<Rightarrow> 'a cluster \<Rightarrow> bool" where
  "distances_nonzero fo c =
     list_all (\<lambda>(i, j). case distance fo (position (c ! i)) (position (c ! j)) of
                           Inl e \<Rightarrow> False
                         | Inr d \<Rightarrow> \<not> is_zero fo d)
       (index_pairs (length c))"

text \<open>No square root raises: every distance is computed.\<close>

definition sqrt_defined :: "'a float_ops \<Rightarrow> 'a cluster \<Rightarrow> bool" where
  "sqrt_defined fo c =
     list_all (\<lambda>(i, j). \<not> isl (distance fo (position (c ! i)) (position (c ! j))))
       (index_pairs (length c))"

subsection \<open>The phases of a step\<close>

text \<open>\<open>position += dt * velocity + 0.5 * dt^2 * acceleration\<close>.\<close>

definition drift :: "'a float_ops \<Rightarrow> 'a \<Rightarrow> 'a particle \<Rightarrow> 'a particle" where
  "drift fo dt p =
     p\<lparr>position := vadd fo (position p)
          (vadd fo (scale fo dt (velocity p))
             (scale fo (fmul fo (fmul fo (lit fo (1/2)) dt) dt) (acceleration p)))\<rparr>"

text \<open>\<open>velocity += 0.5 * dt * (acceleration_new + acceleration_old)\<close>.\<close>

definition kick :: "'a float_ops \<Rightarrow> 'a \<Rightarrow> 'a particle \<Rightarrow> 'a particle" where
  "kick fo dt p =
     p\<lparr>velocity := vadd fo (velocity p)
          (scale fo (fmul fo (lit fo (1/2)) dt)
             (vadd fo (acceleration p) (previous_acceleration p)))\<rparr>"

subsection \<open>The energy samples of a run\<close>

fun sample_of :: "'a printed \<Rightarrow> 'a option" where
  "sample_of (Progress t en d) = Some en"
| "sample_of (Final d) = None"
| "sample_of Run_in = None"

definition samples :: "'a printed list \<Rightarrow> 'a list" where
  "samples ls = List.map_filter sample_of ls"

fun is_progress :: "'a printed \<Rightarrow> bool" where
  "is_progress (Progress t en d) = True"
| "is_progress (Final d) = False"
| "is_progress Run_in = False"

section \<open>Inputs for evaluation\<close>

text \<open>Two unit masses at distance one, moving in opposite directions, with
  accelerations left by an earlier evaluation.\<close>

definition two_body :: "real cluster" where
  "two_body =
     [\<lparr>mass = 1, position = (0, 0, 0), velocity = (0, 1/2, 0),
       acceleration = (2, 0, 0), previous_acceleration = (3, 0, 0)\<rparr>,
      \<lparr>mass = 1, position = (1, 0, 0), velocity = (0, - (1/2), 0),
       acceleration = (- 2, 0, 0), previous_acceleration = (- 3, 0, 0)\<rparr>]"

text \<open>Two unit masses at distance one that move and accelerate alike.\<close>

definition drifting :: "real cluster" where
  "drifting =
     [\<lparr>mass = 1, position = (0, 0, 0), velocity = (1, 0, 0),
       acceleration = (2, 0, 0), previous_acceleration = (0, 0, 0)\<rparr>,
      \<lparr>mass = 1, position = (1, 0, 0), velocity = (1, 0, 0),
       acceleration = (2, 0, 0), previous_acceleration = (0, 0, 0)\<rparr>]"

text \<open>Two unit masses at the same position.\<close>

definition coincident :: "real cluster" where
  "coincident = [Particle exact_ops 1 0 0 0 0 0 0, Particle exact_ops 1 0 0 0 0 0 0]"

text \<open>Two unit masses at rest at distinct positions, \<open>1e-200\<close> apart.\<close>

definition close_pair :: "real cluster" where
  "close_pair =
     [\<lparr>mass = 1, position = (0, 0, 0), velocity = (0, 0, 0),
       acceleration = (0, 0, 0), previous_acceleration = (0, 0, 0)\<rparr>,
      \<lparr>mass = 1, position = (1 / 10 ^ 200, 0, 0), velocity = (0, 0, 0),
       acceleration = (0, 0, 0), previous_acceleration = (0, 0, 0)\<rparr>]"

text \<open>An input file of one particle (mass 2, at the origin, velocity one along x), and
  the files of a run that can open it under any name.\<close>

definition one_star :: "string list" where
  "one_star = [''star 2 0 0 0 1 0 0'']"

definition star_files :: "string \<Rightarrow> string list option" where
  "star_files name = Some one_star"

section \<open>The force kernel\<close>

subsection \<open>The pairs\<close>

lemma set_index_pairs: "set (index_pairs n) = {(i, j). i < j \<and> j < n}"
  by (fastforce simp: index_pairs_def)

lemma distinct_index_pairs: "distinct (index_pairs n)"
  unfolding index_pairs_def
proof (rule distinct_concat)
  show "distinct (map (\<lambda>i. map (Pair i) [Suc i..<n]) [0..<n])"
  proof (simp add: distinct_map, rule inj_onI)
    fix x y
    assume x: "x \<in> {0..<n}" and y: "y \<in> {0..<n}"
      and eq: "map (Pair x) [Suc x..<n] = map (Pair y) [Suc y..<n]"
    from eq have "length [Suc x..<n] = length [Suc y..<n]"
      by (metis length_map)
    with x y show "x = y" by simp
  qed
qed (auto simp: distinct_map inj_on_def)

subsection \<open>Exact arithmetic: equal positions are at distance zero\<close>

lemma exact_squares_zero:
  fixes r1 r2 :: "real vec3"
  shows "dot exact_ops (vsub exact_ops r1 r2) (vsub exact_ops r1 r2) = 0 \<longleftrightarrow> r1 = r2"
proof -
  obtain x1 y1 z1 where r1: "r1 = (x1, y1, z1)" by (cases r1)
  obtain x2 y2 z2 where r2: "r2 = (x2, y2, z2)" by (cases r2)
  have "(x1 - x2) * (x1 - x2) + (y1 - y2) * (y1 - y2) + (z1 - z2) * (z1 - z2) = 0 \<longleftrightarrow>
        x1 = x2 \<and> y1 = y2 \<and> z1 = z2"
  proof
    assume s: "(x1 - x2) * (x1 - x2) + (y1 - y2) * (y1 - y2) + (z1 - z2) * (z1 - z2) = 0"
    have "0 \<le> (x1 - x2) * (x1 - x2)" "0 \<le> (y1 - y2) * (y1 - y2)" "0 \<le> (z1 - z2) * (z1 - z2)"
      by simp_all
    with s have "(x1 - x2) * (x1 - x2) = 0" "(y1 - y2) * (y1 - y2) = 0" "(z1 - z2) * (z1 - z2) = 0"
      by linarith+
    then show "x1 = x2 \<and> y1 = y2 \<and> z1 = z2" by simp
  qed simp
  then show ?thesis by (simp add: r1 r2 exact_ops_def)
qed

lemma exact_squares_nonneg:
  fixes r1 r2 :: "real vec3"
  shows "0 \<le> dot exact_ops (vsub exact_ops r1 r2) (vsub exact_ops r1 r2)"
proof -
  obtain x1 y1 z1 where r1: "r1 = (x1, y1, z1)" by (cases r1)
  obtain x2 y2 z2 where r2: "r2 = (x2, y2, z2)" by (cases r2)
  show ?thesis by (simp add: r1 r2 exact_ops_def)
qed

lemma exact_distance_cubed:
  "distance_cubed exact_ops r1 r2 =
     Inr (dot exact_ops (vsub exact_ops r1 r2) (vsub exact_ops r1 r2) powr (3/2))"
  by (simp add: distance_cubed_def Let_def) (simp add: exact_ops_def of_rat_divide)

lemma exact_distance:
  "distance exact_ops r1 r2 =
     Inr (sqrt (dot exact_ops (vsub exact_ops r1 r2) (vsub exact_ops r1 r2)))"
  using exact_squares_nonneg [of r1 r2]
  by (simp add: distance_def Let_def) (simp add: exact_ops_def)

lemma exact_sqrt_defined: "sqrt_defined exact_ops c"
  unfolding sqrt_defined_def list_all_iff by (auto simp: exact_distance)

lemma exact_coincide:
  assumes "r1 = r2"
  shows "distance_cubed exact_ops r1 r2 = Inr 0" and "distance exact_ops r1 r2 = Inr 0"
proof -
  from assms have "dot exact_ops (vsub exact_ops r1 r2) (vsub exact_ops r1 r2) = 0"
    by (simp add: exact_squares_zero)
  then show "distance_cubed exact_ops r1 r2 = Inr 0" and "distance exact_ops r1 r2 = Inr 0"
    by (simp_all add: exact_distance_cubed exact_distance)
qed

lemma exact_is_zero: "is_zero exact_ops x \<longleftrightarrow> x = 0"
  by (simp add: exact_ops_def)

subsection \<open>The loops of accelerate accumulate the contributions of the pairs\<close>

lemma length_set_accelerations:
  "length accs = length c \<Longrightarrow> length (set_accelerations c accs) = length c"
  by (simp add: set_accelerations_def)

lemma nth_set_accelerations:
  "length accs = length c \<Longrightarrow> k < length c \<Longrightarrow>
   set_accelerations c accs ! k = (c ! k)\<lparr>acceleration := accs ! k\<rparr>"
  by (simp add: set_accelerations_def)

lemma length_contribute:
  "contribute fo ms rs ij accs = Inr accs' \<Longrightarrow> length accs' = length accs"
  by (auto simp: contribute_def Let_def split: prod.splits sum.splits)

lemma set_accelerations_update':
  assumes "length accs = length c" "k < length c"
  shows "(set_accelerations c accs)[k := (c ! k)\<lparr>acceleration := a\<rparr>]
         = set_accelerations c (accs[k := a])"
  using assms
  by (intro nth_equalityI) (auto simp: set_accelerations_def nth_list_update)

lemma pair_body_contribute:
  assumes len: "length accs = length c" and i: "i < length c" and j: "j < length c"
  shows "pair_body fo i (mass (c ! i)) (position (c ! i)) j (set_accelerations c accs) =
         (case contribute fo (map mass c) (map position c) (i, j) accs of
            Inl e \<Rightarrow> Inl e
          | Inr accs' \<Rightarrow> Inr (set_accelerations c accs'))"
proof -
  obtain px1 py1 pz1 where r1: "position (c ! i) = (px1, py1, pz1)" by (cases "position (c ! i)")
  obtain px2 py2 pz2 where r2: "position (c ! j) = (px2, py2, pz2)" by (cases "position (c ! j)")
  obtain ax ay az where a1: "accs ! i = (ax, ay, az)" by (cases "accs ! i")
  show ?thesis
    using len i j r1 r2 a1
    by (simp add: pair_body_def contribute_def distance_cubed_def Let_def nth_set_accelerations
        length_set_accelerations set_accelerations_update' split: sum.splits prod.splits)
qed

lemma inner_loop_accumulate:
  assumes "length accs = length c" "i < length c" "\<forall>j\<in>set js. j < length c"
  shows "inner_loop fo i (mass (c ! i)) (position (c ! i)) js (set_accelerations c accs) =
         (case accumulate fo (map mass c) (map position c) (map (Pair i) js) accs of
            Inl e \<Rightarrow> Inl e
          | Inr accs' \<Rightarrow> Inr (set_accelerations c accs'))"
  using assms
proof (induction js arbitrary: accs)
  case Nil
  then show ?case by simp
next
  case (Cons j js)
  show ?case
  proof (cases "contribute fo (map mass c) (map position c) (i, j) accs")
    case (Inl e)
    with Cons.prems show ?thesis by (simp add: pair_body_contribute)
  next
    case (Inr accs1)
    then have "length accs1 = length c" using Cons.prems(1) length_contribute by fastforce
    with Cons Inr show ?thesis by (simp add: pair_body_contribute)
  qed
qed

lemma length_accumulate:
  "accumulate fo ms rs ps accs = Inr accs' \<Longrightarrow> length accs' = length accs"
proof (induction ps arbitrary: accs)
  case Nil
  then show ?case by simp
next
  case (Cons ij ps)
  then show ?case by (auto split: sum.splits dest: length_contribute)
qed

lemma accumulate_append:
  "accumulate fo ms rs (ps @ qs) accs =
     (case accumulate fo ms rs ps accs of
        Inl e \<Rightarrow> Inl e
      | Inr accs' \<Rightarrow> accumulate fo ms rs qs accs')"
  by (induction ps arbitrary: accs) (auto split: sum.splits)

lemma outer_loop_accumulate:
  assumes "length accs = length c" "\<forall>i\<in>set is. i < length c"
  shows "outer_loop fo (length c) is (set_accelerations c accs) =
         (case accumulate fo (map mass c) (map position c)
                 (concat (map (\<lambda>i. map (Pair i) [Suc i..<length c]) is)) accs of
            Inl e \<Rightarrow> Inl e
          | Inr accs' \<Rightarrow> Inr (set_accelerations c accs'))"
  using assms
proof (induction "is" arbitrary: accs)
  case Nil
  then show ?case by simp
next
  case (Cons i "is")
  let ?S = "set_accelerations c accs"
  have m: "mass (?S ! i) = mass (c ! i)" and r: "position (?S ! i) = position (c ! i)"
    using Cons.prems by (simp_all add: nth_set_accelerations)
  have inner: "inner_loop fo i (mass (c ! i)) (position (c ! i)) [Suc i..<length c] ?S =
         (case accumulate fo (map mass c) (map position c) (map (Pair i) [Suc i..<length c]) accs of
            Inl e \<Rightarrow> Inl e
          | Inr accs' \<Rightarrow> Inr (set_accelerations c accs'))"
    using Cons.prems by (intro inner_loop_accumulate) auto
  show ?case
  proof (cases "accumulate fo (map mass c) (map position c) (map (Pair i) [Suc i..<length c]) accs")
    case (Inl e)
    then show ?thesis by (simp add: m r inner accumulate_append)
  next
    case (Inr accs1)
    then have "length accs1 = length c" using Cons.prems(1) length_accumulate by fastforce
    with Cons Inr show ?thesis by (simp add: m r inner accumulate_append)
  qed
qed

lemma reset_loop_eq:
  "reset_loop fo c = set_accelerations (hand_off c) (replicate (length c) (zero_vector fo))"
  by (induction c) (simp_all add: set_accelerations_def hand_off_def zero_vector_def)

lemma accelerate_pairwise:
  "accelerate fo c =
     (case pairwise_accelerations fo c of
        Inl e \<Rightarrow> Inl e
      | Inr accs \<Rightarrow> Inr (set_accelerations (hand_off c) accs))"
proof -
  let ?c = "hand_off c"
  have len: "length ?c = length c" by (simp add: hand_off_def)
  have ms: "map mass ?c = map mass c" and rs: "map position ?c = map position c"
    by (simp_all add: hand_off_def)
  have "outer_loop fo (length ?c) [0..<length ?c]
          (set_accelerations ?c (replicate (length c) (zero_vector fo))) =
        (case accumulate fo (map mass ?c) (map position ?c)
                 (concat (map (\<lambda>i. map (Pair i) [Suc i..<length ?c]) [0..<length ?c]))
                 (replicate (length c) (zero_vector fo)) of
            Inl e \<Rightarrow> Inl e
          | Inr accs' \<Rightarrow> Inr (set_accelerations ?c accs'))"
    by (intro outer_loop_accumulate) (simp_all add: len)
  then show ?thesis
    by (simp add: accelerate_def reset_loop_eq pairwise_accelerations_def index_pairs_def
        len ms rs length_set_accelerations)
qed

lemma accelerate_small:
  assumes "length c \<le> 1"
  shows "accelerate fo c = Inr (set_accelerations (hand_off c) (replicate (length c) (zero_vector fo)))"
proof -
  from assms have "length c = 0 \<or> length c = 1" by linarith
  then have "index_pairs (length c) = []" by (auto simp: index_pairs_def)
  then show ?thesis by (simp add: accelerate_pairwise pairwise_accelerations_def)
qed

lemma contribute_cases:
  "contribute fo ms rs (i, j) accs =
     (case distance_cubed fo (rs ! i) (rs ! j) of
        Inl e \<Rightarrow> Inl e
      | Inr d3 \<Rightarrow>
          if is_zero fo d3 then Inl ZeroDivisionError
          else Inr (accs[i := vsub fo (accs ! i) (scale fo (fquot fo (ms ! j) d3) (vsub fo (rs ! i) (rs ! j))),
                        j := vadd fo ((accs[i := vsub fo (accs ! i) (scale fo (fquot fo (ms ! j) d3) (vsub fo (rs ! i) (rs ! j)))]) ! j)
                               (scale fo (fquot fo (ms ! i) d3) (vsub fo (rs ! i) (rs ! j)))]))"
  by (simp add: contribute_def truediv_def Let_def split: sum.splits)

lemma accumulate_returns:
  assumes "list_all (\<lambda>(i, j). case distance_cubed fo (rs ! i) (rs ! j) of
                           Inl e \<Rightarrow> False
                         | Inr d3 \<Rightarrow> \<not> is_zero fo d3) ps"
  shows "\<exists>accs'. accumulate fo ms rs ps accs = Inr accs'"
  using assms
proof (induction ps arbitrary: accs)
  case Nil
  then show ?case by simp
next
  case (Cons ij ps)
  obtain i j where ij: "ij = (i, j)" by (cases ij)
  from Cons.prems ij obtain d3 where "distance_cubed fo (rs ! i) (rs ! j) = Inr d3" "\<not> is_zero fo d3"
    by (auto split: sum.splits)
  then obtain accs1 where "contribute fo ms rs ij accs = Inr accs1"
    by (simp add: contribute_cases ij)
  moreover have "\<exists>accs'. accumulate fo ms rs ps accs1 = Inr accs'"
    using Cons.prems by (intro Cons.IH) simp
  ultimately show ?case by simp
qed


lemma pairwise_positions:
  "length c' = length c \<Longrightarrow> map mass c' = map mass c \<Longrightarrow> map position c' = map position c \<Longrightarrow>
   pairwise_accelerations fo c' = pairwise_accelerations fo c"
  by (simp add: pairwise_accelerations_def)

lemma singular_free_returns:
  assumes "singular_free fo c"
  shows "\<exists>accs. pairwise_accelerations fo c = Inr accs"
proof -
  have "list_all (\<lambda>(i, j). case distance_cubed fo (map position c ! i) (map position c ! j) of
                           Inl e \<Rightarrow> False
                         | Inr d3 \<Rightarrow> \<not> is_zero fo d3) (index_pairs (length c))"
    using assms unfolding singular_free_def list_all_iff
    by (auto simp: set_index_pairs)
  then show ?thesis
    unfolding pairwise_accelerations_def by (rule accumulate_returns)
qed

lemma length_pairwise:
  "pairwise_accelerations fo c = Inr accs \<Longrightarrow> length accs = length c"
  unfolding pairwise_accelerations_def by (drule length_accumulate) simp


lemma accelerate_again:
  assumes "accelerate fo c = Inr c1"
  shows "\<exists>c2. accelerate fo c1 = Inr c2 \<and> map acceleration c2 = map acceleration c1 \<and>
              map previous_acceleration c2 = map acceleration c1"
proof -
  from assms obtain accs where accs: "pairwise_accelerations fo c = Inr accs"
    and c1: "c1 = set_accelerations (hand_off c) accs"
    by (auto simp: accelerate_pairwise split: sum.splits)
  have len: "length accs = length c" using accs by (rule length_pairwise)
  have len1: "length c1 = length c" using len by (simp add: c1 set_accelerations_def hand_off_def)
  have ms: "map mass c1 = map mass c"
    using len by (intro nth_equalityI) (simp_all add: c1 set_accelerations_def hand_off_def)
  have rs: "map position c1 = map position c"
    using len by (intro nth_equalityI) (simp_all add: c1 set_accelerations_def hand_off_def)
  have "pairwise_accelerations fo c1 = pairwise_accelerations fo c"
    using len1 ms rs by (rule pairwise_positions)
  then have run: "accelerate fo c1 = Inr (set_accelerations (hand_off c1) accs)"
    by (simp add: accelerate_pairwise accs)
  have a1: "map acceleration c1 = accs"
    using len by (intro nth_equalityI) (simp_all add: c1 set_accelerations_def hand_off_def)
  have "map acceleration (set_accelerations (hand_off c1) accs) = accs"
    using len len1 by (intro nth_equalityI) (simp_all add: set_accelerations_def hand_off_def)
  moreover have "map previous_acceleration (set_accelerations (hand_off c1) accs) = map acceleration c1"
    using len len1 by (intro nth_equalityI) (simp_all add: set_accelerations_def hand_off_def)
  ultimately show ?thesis using run a1 by simp
qed

lemma eval_kernel:
  "accelerate exact_ops two_body =
     Inr [\<lparr>mass = 1, position = (0, 0, 0), velocity = (0, 1/2, 0),
           acceleration = (1, 0, 0), previous_acceleration = (2, 0, 0)\<rparr>,
          \<lparr>mass = 1, position = (1, 0, 0), velocity = (0, - (1/2), 0),
           acceleration = (- 1, 0, 0), previous_acceleration = (- 2, 0, 0)\<rparr>]"
  by (simp add: accelerate_def two_body_def exact_ops_def pair_body_def truediv_def)

lemma accelerate_returned:
  assumes "accelerate fo c = Inr c'"
  shows "length c' = length c \<and>
      pairwise_accelerations fo c = Inr (map acceleration c') \<and>
      (\<forall>k<length c.
         previous_acceleration (c' ! k) = acceleration (c ! k) \<and>
         mass (c' ! k) = mass (c ! k) \<and>
         position (c' ! k) = position (c ! k) \<and>
         velocity (c' ! k) = velocity (c ! k))"
proof -
  from assms obtain accs where accs: "pairwise_accelerations fo c = Inr accs"
    and c': "c' = set_accelerations (hand_off c) accs"
    by (auto simp: accelerate_pairwise split: sum.splits)
  have len: "length accs = length c" using accs by (rule length_pairwise)
  have "map acceleration c' = accs"
    using len by (intro nth_equalityI) (simp_all add: c' set_accelerations_def hand_off_def)
  moreover have "\<forall>k<length c.
         previous_acceleration (c' ! k) = acceleration (c ! k) \<and>
         mass (c' ! k) = mass (c ! k) \<and>
         position (c' ! k) = position (c ! k) \<and>
         velocity (c' ! k) = velocity (c ! k)"
    using len by (simp add: c' set_accelerations_def hand_off_def)
  moreover have "length c' = length c"
    using len by (simp add: c' set_accelerations_def hand_off_def)
  ultimately show ?thesis using accs by simp
qed

text \<open>
  C1. After a call of the force kernel that returns, every particle's previous
  acceleration is the acceleration it held at entry, its mass, position and velocity are
  unchanged, and the accelerations are the contributions
  \<open>a[i] -= (mass[j] / distance_cubed) * delta\<close>, \<open>a[j] += (mass[i] / distance_cubed) * delta\<close>
  of every pair \<open>i < j\<close>, accumulated from the zero vector in the order of the pairs.
  The kernel raises exactly when that accumulation raises, with the same exception.
\<close>

theorem accelerate_pairwise_sum:
  "(\<forall>e. accelerate fo c = Inl e \<longleftrightarrow> pairwise_accelerations fo c = Inl e) \<and>
   (\<forall>c'. accelerate fo c = Inr c' \<longrightarrow>
      length c' = length c \<and>
      pairwise_accelerations fo c = Inr (map acceleration c') \<and>
      (\<forall>k<length c.
         previous_acceleration (c' ! k) = acceleration (c ! k) \<and>
         mass (c' ! k) = mass (c ! k) \<and>
         position (c' ! k) = position (c ! k) \<and>
         velocity (c' ! k) = velocity (c ! k)))"
proof
  show "\<forall>e. accelerate fo c = Inl e \<longleftrightarrow> pairwise_accelerations fo c = Inl e"
    by (cases "pairwise_accelerations fo c") (simp_all add: accelerate_pairwise)
  show "\<forall>c'. accelerate fo c = Inr c' \<longrightarrow>
      length c' = length c \<and>
      pairwise_accelerations fo c = Inr (map acceleration c') \<and>
      (\<forall>k<length c.
         previous_acceleration (c' ! k) = acceleration (c ! k) \<and>
         mass (c' ! k) = mass (c ! k) \<and>
         position (c' ! k) = position (c ! k) \<and>
         velocity (c' ! k) = velocity (c ! k))"
    by (intro allI impI) (rule accelerate_returned)
qed

theorem accelerate_pairwise_sum_witness:
  "pairwise_accelerations exact_ops two_body = Inr [(1, 0, 0), (- 1, 0, 0)] \<and>
   (\<exists>c'. accelerate exact_ops two_body = Inr c' \<and>
      previous_acceleration (c' ! 0) = (2, 0, 0) \<and>
      previous_acceleration (c' ! 1) = (- 2, 0, 0))"
  using accelerate_pairwise_sum [of exact_ops two_body] eval_kernel
  by (simp add: two_body_def)

lemma accumulate_returned_all:
  assumes "accumulate fo ms rs ps accs = Inr accs'"
  shows "list_all (\<lambda>(i, j). case distance_cubed fo (rs ! i) (rs ! j) of
                           Inl e \<Rightarrow> False
                         | Inr d3 \<Rightarrow> \<not> is_zero fo d3) ps"
  using assms
proof (induction ps arbitrary: accs)
  case Nil
  then show ?case by simp
next
  case (Cons ij ps)
  obtain i j where ij: "ij = (i, j)" by (cases ij)
  from Cons.prems obtain accs1 where c: "contribute fo ms rs (i, j) accs = Inr accs1"
    and r: "accumulate fo ms rs ps accs1 = Inr accs'"
    by (auto simp: ij split: sum.splits)
  from c have "case distance_cubed fo (rs ! i) (rs ! j) of
                 Inl e \<Rightarrow> False | Inr d3 \<Rightarrow> \<not> is_zero fo d3"
    by (auto simp: contribute_cases split: sum.splits if_splits)
  with Cons.IH [OF r] show ?case by (simp add: ij)
qed

lemma singular_free_iff:
  "singular_free fo c \<longleftrightarrow> (\<exists>accs. pairwise_accelerations fo c = Inr accs)"
proof
  assume "singular_free fo c"
  then show "\<exists>accs. pairwise_accelerations fo c = Inr accs" by (rule singular_free_returns)
next
  assume "\<exists>accs. pairwise_accelerations fo c = Inr accs"
  then obtain accs where "pairwise_accelerations fo c = Inr accs" ..
  then have "list_all (\<lambda>(i, j). case distance_cubed fo (map position c ! i) (map position c ! j) of
                           Inl e \<Rightarrow> False
                         | Inr d3 \<Rightarrow> \<not> is_zero fo d3) (index_pairs (length c))"
    unfolding pairwise_accelerations_def by (rule accumulate_returned_all)
  then show "singular_free fo c"
    unfolding singular_free_def list_all_iff by (auto simp: set_index_pairs)
qed

text \<open>
  C9, as the code has it. A second call of the force kernel right after a call that
  returned returns too, with the same accelerations, and the previous accelerations are
  then the accelerations of the first call. The first call returns exactly when no pair
  is singular: every \<open>distance_cubed\<close> is computed and is not zero. Pairwise distinct
  positions do not ensure that: the squares of a small difference underflow to zero, and
  the first call raises.
\<close>

theorem accelerate_twice:
  "(singular_free fo c \<longleftrightarrow> (\<exists>c1. accelerate fo c = Inr c1)) \<and>
   (\<forall>c1. accelerate fo c = Inr c1 \<longrightarrow>
      (\<exists>c2. accelerate fo c1 = Inr c2 \<and>
            map acceleration c2 = map acceleration c1 \<and>
            map previous_acceleration c2 = map acceleration c1))"
proof (intro conjI allI impI)
  show "singular_free fo c \<longleftrightarrow> (\<exists>c1. accelerate fo c = Inr c1)"
    by (auto simp: singular_free_iff accelerate_pairwise split: sum.splits)
next
  fix c1
  assume "accelerate fo c = Inr c1"
  then show "\<exists>c2. accelerate fo c1 = Inr c2 \<and>
            map acceleration c2 = map acceleration c1 \<and>
            map previous_acceleration c2 = map acceleration c1"
    by (rule accelerate_again)
qed

theorem accelerate_twice_witness:
  "singular_free exact_ops two_body \<and>
   (\<exists>c1 c2. accelerate exact_ops two_body = Inr c1 \<and> accelerate exact_ops c1 = Inr c2 \<and>
      map acceleration c2 = [(1, 0, 0), (- 1, 0, 0)] \<and>
      map previous_acceleration c2 = [(1, 0, 0), (- 1, 0, 0)])"
proof -
  note inst = accelerate_twice [of exact_ops two_body]
  from inst eval_kernel have sf: "singular_free exact_ops two_body" by blast
  from eval_kernel obtain c1 where run1: "accelerate exact_ops two_body = Inr c1" by blast
  with inst obtain c2 where run2: "accelerate exact_ops c1 = Inr c2"
    and a: "map acceleration c2 = map acceleration c1"
    and oa: "map previous_acceleration c2 = map acceleration c1"
    by blast
  from run1 have "map acceleration c1 = [(1, 0, 0), (- 1, 0, 0)]"
    by (auto simp: eval_kernel)
  with a oa have "map acceleration c2 = [(1, 0, 0), (- 1, 0, 0)]"
    and "map previous_acceleration c2 = [(1, 0, 0), (- 1, 0, 0)]" by simp_all
  with sf run1 run2 show ?thesis
    by (intro conjI exI [of _ c1] exI [of _ c2])
qed

theorem accelerate_close_pair_raises:
  "distinct (map position close_pair) \<and>
   accelerate under_ops close_pair = Inl ZeroDivisionError"
  by (simp add: close_pair_def accelerate_def pair_body_def truediv_def under_ops_def
      exact_ops_def Let_def)






section \<open>The energy\<close>

lemma kinetic_loop_foldl:
  "kinetic_loop fo ke c =
     foldl (\<lambda>ke p. fadd fo ke (fmul fo (fmul fo (lit fo (1/2)) (mass p))
                                  (dot fo (velocity p) (velocity p)))) ke c"
proof (induction c arbitrary: ke)
  case Nil
  then show ?case by simp
next
  case (Cons p ps)
  obtain vx vy vz where "velocity p = (vx, vy, vz)" by (cases "velocity p")
  with Cons show ?case by simp
qed

lemma index_pairs_Suc:
  "index_pairs (Suc n) =
     map (Pair 0) [Suc 0..<Suc n] @ map (\<lambda>(i, j). (Suc i, Suc j)) (index_pairs n)"
proof -
  have "[0..<Suc n] = 0 # map Suc [0..<n]"
    by (simp add: upt_conv_Cons map_Suc_upt del: upt_Suc)
  moreover have "map (Pair (Suc i)) [Suc (Suc i)..<Suc n] =
        map (\<lambda>(i, j). (Suc i, Suc j)) (map (Pair i) [Suc i..<n])" for i
    by (simp add: map_Suc_upt [symmetric] del: upt_Suc)
  ultimately show ?thesis
    by (simp add: index_pairs_def map_concat comp_def del: upt_Suc)
qed

lemma combinations2_index_pairs:
  "combinations2 c = map (\<lambda>(i, j). (c ! i, c ! j)) (index_pairs (length c))"
proof (induction c)
  case Nil
  then show ?case by (simp add: index_pairs_def)
next
  case (Cons p ps)
  have "map (Pair p) ps = map (\<lambda>(i, j). ((p # ps) ! i, (p # ps) ! j)) (map (Pair 0) [Suc 0..<Suc (length ps)])"
    by (intro nth_equalityI) (simp_all del: upt_Suc)
  moreover have "combinations2 ps =
      map (\<lambda>(i, j). ((p # ps) ! i, (p # ps) ! j)) (map (\<lambda>(i, j). (Suc i, Suc j)) (index_pairs (length ps)))"
    by (simp add: Cons.IH comp_def case_prod_unfold)
  ultimately show ?case
    by (simp add: index_pairs_Suc del: upt_Suc)
qed

lemma potential_loop_subtract:
  "potential_loop fo pe (map (\<lambda>(i, j). (c ! i, c ! j)) ps) = subtract_pairs fo c pe ps"
proof (induction ps arbitrary: pe)
  case Nil
  then show ?case by simp
next
  case (Cons ij ps)
  obtain i j where ij: "ij = (i, j)" by (cases ij)
  obtain px1 py1 pz1 where r1: "position (c ! i) = (px1, py1, pz1)" by (cases "position (c ! i)")
  obtain px2 py2 pz2 where r2: "position (c ! j) = (px2, py2, pz2)" by (cases "position (c ! j)")
  show ?case
    by (simp add: ij r1 r2 pair_potential_def distance_def Cons.IH Let_def split: sum.splits)
qed

lemma get_energy_total: "get_energy fo c = total_energy fo c"
proof -
  have "kinetic_loop fo (lit fo 0) c = kinetic_energy fo c"
    unfolding kinetic_energy_def by (rule kinetic_loop_foldl)
  then show ?thesis
    by (simp add: get_energy_def total_energy_def potential_energy_def
        combinations2_index_pairs potential_loop_subtract)
qed

lemma pair_potential_cases:
  "pair_potential fo c (i, j) =
     (case distance fo (position (c ! i)) (position (c ! j)) of
        Inl e \<Rightarrow> Inl e
      | Inr d \<Rightarrow> if is_zero fo d then Inl ZeroDivisionError
                 else Inr (fquot fo (fmul fo (mass (c ! i)) (mass (c ! j))) d))"
  by (simp add: pair_potential_def truediv_def split: sum.splits)

lemma subtract_pairs_returns:
  assumes "list_all (\<lambda>(i, j). case distance fo (position (c ! i)) (position (c ! j)) of
                           Inl e \<Rightarrow> False
                         | Inr d \<Rightarrow> \<not> is_zero fo d) ps"
  shows "\<exists>pe'. subtract_pairs fo c pe ps = Inr pe'"
  using assms
proof (induction ps arbitrary: pe)
  case Nil
  then show ?case by simp
next
  case (Cons ij ps)
  obtain i j where ij: "ij = (i, j)" by (cases ij)
  from Cons.prems ij obtain d where "distance fo (position (c ! i)) (position (c ! j)) = Inr d"
    "\<not> is_zero fo d"
    by (auto split: sum.splits)
  then obtain t where "pair_potential fo c ij = Inr t"
    by (simp add: pair_potential_cases ij)
  moreover have "\<exists>pe'. subtract_pairs fo c (fsub fo pe t) ps = Inr pe'"
    using Cons.prems by (intro Cons.IH) simp
  ultimately show ?case by simp
qed

lemma subtract_pairs_raises:
  assumes "(i, j) \<in> set ps" "distance fo (position (c ! i)) (position (c ! j)) = Inr d"
    "is_zero fo d"
  shows "\<exists>e. subtract_pairs fo c pe ps = Inl e"
  using assms
proof (induction ps arbitrary: pe)
  case Nil
  then show ?case by simp
next
  case (Cons kl ps)
  show ?case
  proof (cases "pair_potential fo c kl")
    case (Inl e)
    then show ?thesis by simp
  next
    case (Inr t)
    with Cons.prems have "kl \<noteq> (i, j)" by (auto simp: pair_potential_cases)
    with Cons.prems have "(i, j) \<in> set ps" by auto
    with Cons Inr show ?thesis by simp
  qed
qed

lemma subtract_pairs_singular:
  assumes "list_all (\<lambda>(i, j). \<not> isl (distance fo (position (c ! i)) (position (c ! j)))) ps"
    and "(i, j) \<in> set ps" "distance fo (position (c ! i)) (position (c ! j)) = Inr d"
    "is_zero fo d"
  shows "subtract_pairs fo c pe ps = Inl ZeroDivisionError"
  using assms
proof (induction ps arbitrary: pe)
  case Nil
  then show ?case by simp
next
  case (Cons kl ps)
  obtain k l where kl: "kl = (k, l)" by (cases kl)
  from Cons.prems(1) kl obtain d' where d': "distance fo (position (c ! k)) (position (c ! l)) = Inr d'"
    by (cases "distance fo (position (c ! k)) (position (c ! l))") auto
  show ?case
  proof (cases "is_zero fo d'")
    case True
    then show ?thesis by (simp add: kl pair_potential_cases d')
  next
    case False
    with Cons.prems d' kl have "(i, j) \<in> set ps" by auto
    with Cons False show ?thesis by (simp add: kl pair_potential_cases d')
  qed
qed

lemma subtract_pairs_returned_all:
  assumes "subtract_pairs fo c pe ps = Inr pe'"
  shows "list_all (\<lambda>(i, j). case distance fo (position (c ! i)) (position (c ! j)) of
                           Inl e \<Rightarrow> False
                         | Inr d \<Rightarrow> \<not> is_zero fo d) ps"
  using assms
proof (induction ps arbitrary: pe)
  case Nil
  then show ?case by simp
next
  case (Cons ij ps)
  obtain i j where ij: "ij = (i, j)" by (cases ij)
  from Cons.prems obtain t where c: "pair_potential fo c (i, j) = Inr t"
    and r: "subtract_pairs fo c (fsub fo pe t) ps = Inr pe'"
    by (auto simp: ij split: sum.splits)
  from c have "case distance fo (position (c ! i)) (position (c ! j)) of
                 Inl e \<Rightarrow> False | Inr d \<Rightarrow> \<not> is_zero fo d"
    by (auto simp: pair_potential_cases split: sum.splits if_splits)
  with Cons.IH [OF r] show ?case by (simp add: ij)
qed

lemma distances_nonzero_iff:
  "distances_nonzero fo c \<longleftrightarrow> (\<exists>en. get_energy fo c = Inr en)"
proof
  assume "distances_nonzero fo c"
  then have "\<exists>pe. potential_energy fo c = Inr pe"
    unfolding distances_nonzero_def potential_energy_def
    by (rule subtract_pairs_returns)
  then obtain pe where "potential_energy fo c = Inr pe" ..
  then show "\<exists>en. get_energy fo c = Inr en"
    by (simp add: get_energy_total total_energy_def)
next
  assume "\<exists>en. get_energy fo c = Inr en"
  then obtain pe where "potential_energy fo c = Inr pe"
    by (auto simp: get_energy_total total_energy_def split: sum.splits)
  then show "distances_nonzero fo c"
    unfolding distances_nonzero_def potential_energy_def
    by (rule subtract_pairs_returned_all)
qed

text \<open>
  C3, as the code has it. \<open>get_energy\<close> is the kinetic energy, the sum over the
  particles of \<open>0.5 * mass * |velocity|^2\<close>, plus the potential energy, in which the
  term \<open>(mass[i] * mass[j]) / |position[i] - position[j]|\<close> of every pair \<open>i < j\<close> is
  subtracted, with the plain Euclidean distance. It returns that value exactly when the
  distance of every pair is computed and is not zero, and the cluster after the call is
  the cluster before it. Pairwise distinct positions do not ensure a return: the squares
  of a small difference underflow to zero, and the division raises.
\<close>

theorem get_energy_formula:
  "get_energy fo c = total_energy fo c \<and>
   (distances_nonzero fo c \<longleftrightarrow> (\<exists>en. get_energy fo c = Inr en)) \<and>
   (\<forall>en c'. get_energy_call fo c = Inr (en, c') \<longrightarrow> c' = c \<and> get_energy fo c = Inr en)"
proof (intro conjI)
  show "get_energy fo c = total_energy fo c" by (rule get_energy_total)
  show "distances_nonzero fo c \<longleftrightarrow> (\<exists>en. get_energy fo c = Inr en)"
    by (rule distances_nonzero_iff)
  show "\<forall>en c'. get_energy_call fo c = Inr (en, c') \<longrightarrow> c' = c \<and> get_energy fo c = Inr en"
    by (auto simp: get_energy_call_def split: sum.splits)
qed

theorem get_energy_formula_witness:
  "distances_nonzero exact_ops two_body \<and>
   get_energy_call exact_ops two_body = Inr (- (3/4), two_body) \<and>
   get_energy exact_ops two_body = Inr (- (3/4)) \<and>
   kinetic_energy exact_ops two_body = 1/4 \<and>
   potential_energy exact_ops two_body = Inr (- 1)"
proof -
  note inst = get_energy_formula [of exact_ops two_body]
  have ke: "kinetic_energy exact_ops two_body = 1/4"
    by (simp add: kinetic_energy_def two_body_def exact_ops_def of_rat_divide)
  have pe: "potential_energy exact_ops two_body = Inr (- 1)"
    by (simp add: potential_energy_def index_pairs_def pair_potential_def distance_def
        truediv_def two_body_def exact_ops_def)
  from inst ke pe
  have en: "get_energy exact_ops two_body = Inr (- (3/4))"
    by (simp add: total_energy_def exact_ops_def)
  with inst have nz: "distances_nonzero exact_ops two_body" by blast
  from en have call: "get_energy_call exact_ops two_body = Inr (- (3/4), two_body)"
    by (simp add: get_energy_call_def)
  from nz call en ke pe show ?thesis by simp
qed

theorem get_energy_close_pair_raises:
  "distinct (map position close_pair) \<and>
   get_energy under_ops close_pair = Inl ZeroDivisionError"
  by (simp add: close_pair_def get_energy_def truediv_def under_ops_def exact_ops_def Let_def)

lemma get_energy_singular_pair:
  assumes "i < j" "j < length c"
    and "distance fo (position (c ! i)) (position (c ! j)) = Inr d"
    and "is_zero fo d"
  shows "(\<exists>e. get_energy fo c = Inl e) \<and>
         (sqrt_defined fo c \<longrightarrow> get_energy fo c = Inl ZeroDivisionError)"
proof -
  have mem: "(i, j) \<in> set (index_pairs (length c))"
    using assms by (simp add: set_index_pairs)
  have "\<exists>e. potential_energy fo c = Inl e"
    unfolding potential_energy_def
    using mem assms(3,4) by (rule subtract_pairs_raises)
  then have first: "\<exists>e. get_energy fo c = Inl e"
    by (auto simp: get_energy_total total_energy_def)
  have second: "get_energy fo c = Inl ZeroDivisionError" if "sqrt_defined fo c"
  proof -
    have "potential_energy fo c = Inl ZeroDivisionError"
      unfolding potential_energy_def
      using that [unfolded sqrt_defined_def] mem assms(3,4) by (rule subtract_pairs_singular)
    then show ?thesis by (simp add: get_energy_total total_energy_def)
  qed
  from first second show ?thesis by blast
qed

text \<open>
  C10. \<open>get_energy\<close> fails on a singular configuration too: where the Euclidean
  distance of some pair is zero, it returns no value but raises, and the exception is
  ZeroDivisionError when no square root raised before. In exact arithmetic two particles
  at the same position are such a pair.
\<close>

theorem get_energy_zero_distance:
  "(i < j \<and> j < length c \<and>
    distance fo (position (c ! i)) (position (c ! j)) = Inr d \<and> is_zero fo d \<longrightarrow>
      (\<exists>e. get_energy fo c = Inl e) \<and>
      (sqrt_defined fo c \<longrightarrow> get_energy fo c = Inl ZeroDivisionError)) \<and>
   (i < j \<and> j < length cr \<and> position (cr ! i) = position (cr ! j) \<longrightarrow>
      get_energy exact_ops cr = Inl ZeroDivisionError)"
proof (intro conjI impI)
  assume a: "i < j \<and> j < length c \<and>
    distance fo (position (c ! i)) (position (c ! j)) = Inr d \<and> is_zero fo d"
  then have "(\<exists>e. get_energy fo c = Inl e) \<and>
         (sqrt_defined fo c \<longrightarrow> get_energy fo c = Inl ZeroDivisionError)"
    by (intro get_energy_singular_pair [of i j c fo d]) simp_all
  then show "\<exists>e. get_energy fo c = Inl e" ..
  assume "sqrt_defined fo c"
  with a show "get_energy fo c = Inl ZeroDivisionError"
    using get_energy_singular_pair [of i j c fo d] by simp
next
  assume a: "i < j \<and> j < length cr \<and> position (cr ! i) = position (cr ! j)"
  then have "distance exact_ops (position (cr ! i)) (position (cr ! j)) = Inr 0"
    by (intro exact_coincide) simp
  with a show "get_energy exact_ops cr = Inl ZeroDivisionError"
    using get_energy_singular_pair [of i j cr exact_ops 0]
    by (simp add: exact_is_zero exact_sqrt_defined)
qed

theorem get_energy_zero_distance_witness:
  "(0::nat) < 1 \<and> 1 < length coincident \<and>
   position (coincident ! 0) = position (coincident ! 1) \<and>
   distance exact_ops (position (coincident ! 0)) (position (coincident ! 1)) = Inr 0 \<and>
   is_zero exact_ops 0 \<and> sqrt_defined exact_ops coincident \<and>
   get_energy exact_ops coincident = Inl ZeroDivisionError"
proof -
  have len: "1 < length coincident" by (simp add: coincident_def)
  have same: "position (coincident ! 0) = position (coincident ! 1)"
    by (simp add: coincident_def Particle_def)
  have d: "distance exact_ops (position (coincident ! 0)) (position (coincident ! 1)) = Inr 0"
    by (simp add: coincident_def Particle_def distance_def exact_ops_def)
  have z: "is_zero exact_ops 0" by (simp add: exact_ops_def)
  have o: "sqrt_defined exact_ops coincident"
    by (simp add: sqrt_defined_def index_pairs_def coincident_def Particle_def distance_def
        exact_ops_def)
  from get_energy_zero_distance [of 0 1 coincident exact_ops 0 coincident] len same d z o
  have "get_energy exact_ops coincident = Inl ZeroDivisionError" by simp
  with len same d z o show ?thesis by simp
qed

section \<open>The step\<close>

lemma position_loop_drift:
  "position_loop fo dt (fmul fo (fmul fo (lit fo (1/2)) dt) dt) c = map (drift fo dt) c"
proof (induction c)
  case Nil
  then show ?case by simp
next
  case (Cons p ps)
  obtain rx ry rz where r: "position p = (rx, ry, rz)" by (cases "position p")
  obtain vx vy vz where v: "velocity p = (vx, vy, vz)" by (cases "velocity p")
  obtain ax ay az where a: "acceleration p = (ax, ay, az)" by (cases "acceleration p")
  show ?case by (simp add: Cons.IH r v a drift_def)
qed

lemma velocity_loop_kick:
  "velocity_loop fo (fmul fo (lit fo (1/2)) dt) c = map (kick fo dt) c"
proof (induction c)
  case Nil
  then show ?case by simp
next
  case (Cons p ps)
  obtain vx vy vz where v: "velocity p = (vx, vy, vz)" by (cases "velocity p")
  obtain ax ay az where a: "acceleration p = (ax, ay, az)" by (cases "acceleration p")
  obtain oax oay oaz where oa: "previous_acceleration p = (oax, oay, oaz)"
    by (cases "previous_acceleration p")
  show ?case by (simp add: Cons.IH v a oa kick_def)
qed

lemma step_phases_eq:
  "step fo dt c =
     (case accelerate fo (map (drift fo dt) c) of
        Inl e \<Rightarrow> Inl e
      | Inr c2 \<Rightarrow> Inr (map (kick fo dt) c2))"
  by (simp add: step_def Let_def position_loop_drift velocity_loop_kick split: sum.splits)

lemma step_returned:
  assumes "step fo dt c = Inr c'"
  shows "length c' = length c \<and>
      pairwise_accelerations fo (map (drift fo dt) c) = Inr (map acceleration c') \<and>
      (\<forall>k<length c.
         mass (c' ! k) = mass (c ! k) \<and>
         position (c' ! k) = position (drift fo dt (c ! k)) \<and>
         previous_acceleration (c' ! k) = acceleration (c ! k) \<and>
         velocity (c' ! k) =
           vadd fo (velocity (c ! k))
             (scale fo (fmul fo (lit fo (1/2)) dt)
                (vadd fo (acceleration (c' ! k)) (acceleration (c ! k)))))"
proof -
  let ?c1 = "map (drift fo dt) c"
  from assms obtain c2 where run: "accelerate fo ?c1 = Inr c2" and c': "c' = map (kick fo dt) c2"
    by (auto simp: step_phases_eq split: sum.splits)
  from accelerate_returned [OF run]
  have len: "length c2 = length c"
    and accs: "pairwise_accelerations fo ?c1 = Inr (map acceleration c2)"
    and each: "\<forall>k<length c.
         previous_acceleration (c2 ! k) = acceleration (?c1 ! k) \<and>
         mass (c2 ! k) = mass (?c1 ! k) \<and>
         position (c2 ! k) = position (?c1 ! k) \<and>
         velocity (c2 ! k) = velocity (?c1 ! k)"
    by simp_all
  have "map acceleration c' = map acceleration c2"
    by (simp add: c' kick_def)
  moreover have "\<forall>k<length c.
         mass (c' ! k) = mass (c ! k) \<and>
         position (c' ! k) = position (drift fo dt (c ! k)) \<and>
         previous_acceleration (c' ! k) = acceleration (c ! k) \<and>
         velocity (c' ! k) =
           vadd fo (velocity (c ! k))
             (scale fo (fmul fo (lit fo (1/2)) dt)
                (vadd fo (acceleration (c' ! k)) (acceleration (c ! k))))"
    using each len by (simp add: c' kick_def drift_def)
  ultimately show ?thesis using len accs by (simp add: c')
qed

lemma eval_step:
  "step exact_ops 1 drifting =
     Inr [\<lparr>mass = 1, position = (2, 0, 0), velocity = (5/2, 0, 0),
           acceleration = (1, 0, 0), previous_acceleration = (2, 0, 0)\<rparr>,
          \<lparr>mass = 1, position = (3, 0, 0), velocity = (3/2, 0, 0),
           acceleration = (- 1, 0, 0), previous_acceleration = (2, 0, 0)\<rparr>]"
  by (simp add: step_def accelerate_def drifting_def exact_ops_def pair_body_def truediv_def
      of_rat_divide)

text \<open>
  C2. \<open>step(dt)\<close> is three phases in order: every position moves by
  \<open>dt * velocity + 0.5 * dt^2 * acceleration\<close> with the acceleration stored before the
  call; the force kernel runs once, on the moved positions; every velocity moves by
  \<open>0.5 * dt * (acceleration_new + acceleration_old)\<close>, where the new acceleration is the
  kernel's and the old one is the acceleration at entry, which the kernel moved into the
  previous acceleration. The step raises exactly when that run of the kernel raises.
\<close>

theorem step_phases:
  "step fo dt c =
     (case accelerate fo (map (drift fo dt) c) of
        Inl e \<Rightarrow> Inl e
      | Inr c2 \<Rightarrow> Inr (map (kick fo dt) c2)) \<and>
   (\<forall>c'. step fo dt c = Inr c' \<longrightarrow>
      length c' = length c \<and>
      pairwise_accelerations fo (map (drift fo dt) c) = Inr (map acceleration c') \<and>
      (\<forall>k<length c.
         mass (c' ! k) = mass (c ! k) \<and>
         position (c' ! k) = position (drift fo dt (c ! k)) \<and>
         previous_acceleration (c' ! k) = acceleration (c ! k) \<and>
         velocity (c' ! k) =
           vadd fo (velocity (c ! k))
             (scale fo (fmul fo (lit fo (1/2)) dt)
                (vadd fo (acceleration (c' ! k)) (acceleration (c ! k))))))"
proof
  show "step fo dt c =
     (case accelerate fo (map (drift fo dt) c) of
        Inl e \<Rightarrow> Inl e
      | Inr c2 \<Rightarrow> Inr (map (kick fo dt) c2))"
    by (rule step_phases_eq)
  show "\<forall>c'. step fo dt c = Inr c' \<longrightarrow>
      length c' = length c \<and>
      pairwise_accelerations fo (map (drift fo dt) c) = Inr (map acceleration c') \<and>
      (\<forall>k<length c.
         mass (c' ! k) = mass (c ! k) \<and>
         position (c' ! k) = position (drift fo dt (c ! k)) \<and>
         previous_acceleration (c' ! k) = acceleration (c ! k) \<and>
         velocity (c' ! k) =
           vadd fo (velocity (c ! k))
             (scale fo (fmul fo (lit fo (1/2)) dt)
                (vadd fo (acceleration (c' ! k)) (acceleration (c ! k)))))"
    by (intro allI impI) (rule step_returned)
qed

theorem step_phases_witness:
  "\<exists>c'. step exact_ops 1 drifting = Inr c' \<and>
     pairwise_accelerations exact_ops (map (drift exact_ops 1) drifting) = Inr [(1, 0, 0), (- 1, 0, 0)] \<and>
     map position c' = [(2, 0, 0), (3, 0, 0)] \<and>
     map previous_acceleration c' = [(2, 0, 0), (2, 0, 0)] \<and>
     map velocity c' = [(5/2, 0, 0), (3/2, 0, 0)]"
proof -
  note r = step_phases [of exact_ops 1 drifting, THEN conjunct2, rule_format, OF eval_step]
  from r have "pairwise_accelerations exact_ops (map (drift exact_ops 1) drifting) =
      Inr [(1, 0, 0), (- 1, 0, 0)]"
    by simp
  with eval_step show ?thesis by simp
qed

section \<open>The driver\<close>

subsection \<open>Loading\<close>

lemma floats_of_all:
  "\<forall>t\<in>set ts. float_of_str fo t \<noteq> None \<Longrightarrow>
   \<exists>args. floats_of fo ts = Inr args \<and> length args = length ts"
  by (induction ts) auto

lemma floats_of_bad:
  "\<exists>t\<in>set ts. float_of_str fo t = None \<Longrightarrow> floats_of fo ts = Inl ValueError"
proof (induction ts)
  case Nil
  then show ?case by simp
next
  case (Cons x xs)
  show ?case
  proof (cases "float_of_str fo x")
    case None
    then show ?thesis by simp
  next
    case (Some y)
    with Cons.prems have "\<exists>t\<in>set xs. float_of_str fo t = None" by auto
    then have "floats_of fo xs = Inl ValueError" by (rule Cons.IH)
    with Some show ?thesis by simp
  qed
qed

lemma Particle_call_other:
  "length args \<noteq> 7 \<Longrightarrow> Particle_call fo args = Inl TypeError"
  by (cases "(fo, args)" rule: Particle_call.cases) simp_all

lemma Particle_call_seven:
  "length args = 7 \<Longrightarrow> \<exists>p. Particle_call fo args = Inr p"
  by (cases "(fo, args)" rule: Particle_call.cases) simp_all

lemma eval_tokens: "str_split ''star 1.0 abc'' = [''star'', ''1.0'', ''abc'']"
  by (simp add: str_split_def isspace_def)

lemma eval_tokens_short: "str_split ''star 1.0 2.0'' = [''star'', ''1.0'', ''2.0'']"
  by (simp add: str_split_def isspace_def)

lemma exact_float_abc: "float_of_str exact_ops ''abc'' = None"
  by (simp add: exact_ops_def decimal_def unsigned_decimal_def digit_def)

lemma exact_float_1: "float_of_str exact_ops ''1.0'' = Some 1"
  by (simp add: exact_ops_def decimal_def unsigned_decimal_def digit_def)

lemma exact_float_2: "float_of_str exact_ops ''2.0'' = Some 2"
  by (simp add: exact_ops_def decimal_def unsigned_decimal_def digit_def)

text \<open>
  C6, as the code has it. The loader catches TypeError only, the exception of a call of
  \<open>Particle\<close> with a number of arguments other than seven. So a line whose trailing
  tokens are all float literals and are not seven adds no particle and raises nothing,
  and loading goes on with the next line; seven float literals add one particle; and a
  line with a trailing token that is no float literal raises ValueError, which ends the
  loading.
\<close>

theorem load_line_cases:
  "((\<forall>t\<in>set (drop 1 (str_split line)). float_of_str fo t \<noteq> None) \<and>
      length (drop 1 (str_split line)) \<noteq> 7 \<longrightarrow>
      load_line fo line cl = Inr cl \<and>
      load_lines fo (line # rest) cl = load_lines fo rest cl) \<and>
   ((\<forall>t\<in>set (drop 1 (str_split line)). float_of_str fo t \<noteq> None) \<and>
      length (drop 1 (str_split line)) = 7 \<longrightarrow>
      (\<exists>p. load_line fo line cl = Inr (cl @ [p]))) \<and>
   ((\<exists>t\<in>set (drop 1 (str_split line)). float_of_str fo t = None) \<longrightarrow>
      load_line fo line cl = Inl ValueError \<and>
      load_lines fo (line # rest) cl = Inl ValueError)"
proof (intro conjI impI)
  let ?ts = "drop 1 (str_split line)"
  {
    assume "(\<forall>t\<in>set ?ts. float_of_str fo t \<noteq> None) \<and> length ?ts \<noteq> 7"
    then obtain args where "floats_of fo ?ts = Inr args" "length args \<noteq> 7"
      using floats_of_all [of ?ts fo] by auto
    then have skip: "load_line fo line cl = Inr cl"
      by (simp add: load_line_def Particle_call_other)
    then show "load_line fo line cl = Inr cl" .
    from skip show "load_lines fo (line # rest) cl = load_lines fo rest cl" by simp
  }
  {
    assume "(\<forall>t\<in>set ?ts. float_of_str fo t \<noteq> None) \<and> length ?ts = 7"
    then obtain args where args: "floats_of fo ?ts = Inr args" "length args = 7"
      using floats_of_all [of ?ts fo] by auto
    then obtain p where "Particle_call fo args = Inr p"
      using Particle_call_seven by blast
    with args show "\<exists>p. load_line fo line cl = Inr (cl @ [p])"
      by (simp add: load_line_def)
  }
  {
    assume "\<exists>t\<in>set ?ts. float_of_str fo t = None"
    then have "floats_of fo ?ts = Inl ValueError" by (rule floats_of_bad)
    then have bad: "load_line fo line cl = Inl ValueError"
      by (simp add: load_line_def)
    then show "load_line fo line cl = Inl ValueError" .
    from bad show "load_lines fo (line # rest) cl = Inl ValueError" by simp
  }
qed

theorem load_line_cases_witness:
  "load_line exact_ops ''star 1.0 2.0'' [] = Inr [] \<and>
   load_lines exact_ops [''star 1.0 2.0'', ''star 2 0 0 0 1 0 0''] [] = load_lines exact_ops one_star [] \<and>
   (\<exists>p. load_line exact_ops ''star 2 0 0 0 1 0 0'' [] = Inr [p]) \<and>
   load_line exact_ops ''star 1.0 abc'' [] = Inl ValueError"
proof -
  have short: "(\<forall>t\<in>set (drop 1 (str_split ''star 1.0 2.0'')). float_of_str exact_ops t \<noteq> None) \<and>
      length (drop 1 (str_split ''star 1.0 2.0'')) \<noteq> 7"
    by (simp add: eval_tokens_short exact_float_1 exact_float_2)
  have seven: "(\<forall>t\<in>set (drop 1 (str_split ''star 2 0 0 0 1 0 0'')). float_of_str exact_ops t \<noteq> None) \<and>
      length (drop 1 (str_split ''star 2 0 0 0 1 0 0'')) = 7"
    by (simp add: str_split_def isspace_def exact_ops_def decimal_def unsigned_decimal_def digit_def)
  have bad: "\<exists>t\<in>set (drop 1 (str_split ''star 1.0 abc'')). float_of_str exact_ops t = None"
    by (simp add: eval_tokens exact_float_abc)
  from load_line_cases [of "''star 1.0 2.0''" exact_ops "[]" "one_star"] short
  have 1: "load_line exact_ops ''star 1.0 2.0'' [] = Inr []"
    and 2: "load_lines exact_ops (''star 1.0 2.0'' # one_star) [] = load_lines exact_ops one_star []"
    by blast+
  from load_line_cases [of "''star 2 0 0 0 1 0 0''" exact_ops "[]" "[]"] seven
  have 3: "\<exists>p. load_line exact_ops ''star 2 0 0 0 1 0 0'' [] = Inr ([] @ [p])"
    by blast
  from load_line_cases [of "''star 1.0 abc''" exact_ops "[]" "[]"] bad
  have 4: "load_line exact_ops ''star 1.0 abc'' [] = Inl ValueError"
    by blast
  from 1 2 3 4 show ?thesis by (simp add: one_star_def)
qed

theorem load_non_numeric_raises:
  "drop 1 (str_split ''star 1.0 abc'') = [''1.0'', ''abc''] \<and>
   load_lines exact_ops [''star 1.0 abc'', ''star 2 0 0 0 1 0 0''] [] = Inl ValueError \<and>
   main exact_ops [''nbody'', ''in''] (\<lambda>name. Some [''star 1.0 abc'', ''star 2 0 0 0 1 0 0''])
     = Inl ValueError"
  by (simp add: main_def read_time_end_def load_line_def eval_tokens exact_float_abc exact_float_1)

subsection \<open>The end time\<close>

text \<open>
  C8, as the code has it. The handler of the end time catches IndexError only. A missing
  argument gives the default \<open>10.0\<close>; an argument that is no float literal raises
  ValueError, which ends the run; an argument that is one is the end time.
\<close>

theorem read_time_end_cases:
  "(length argv \<le> 2 \<longrightarrow> read_time_end fo argv = Inr (lit fo 10)) \<and>
   (2 < length argv \<and> float_of_str fo (argv ! 2) = None \<longrightarrow>
      read_time_end fo argv = Inl ValueError \<and> main fo argv files = Inl ValueError) \<and>
   (\<forall>t. 2 < length argv \<and> float_of_str fo (argv ! 2) = Some t \<longrightarrow>
      read_time_end fo argv = Inr t)"
  by (simp add: read_time_end_def main_def)

theorem read_time_end_cases_witness:
  "read_time_end exact_ops [''nbody'', ''in''] = Inr 10 \<and>
   read_time_end exact_ops [''nbody'', ''in'', ''abc''] = Inl ValueError \<and>
   main exact_ops [''nbody'', ''in'', ''abc''] star_files = Inl ValueError \<and>
   read_time_end exact_ops [''nbody'', ''in'', ''1.0''] = Inr 1"
  using read_time_end_cases [of "[''nbody'', ''in'']" exact_ops star_files]
    read_time_end_cases [of "[''nbody'', ''in'', ''abc'']" exact_ops star_files]
    read_time_end_cases [of "[''nbody'', ''in'', ''1.0'']" exact_ops star_files]
  by (simp add: exact_float_abc exact_float_1) (simp add: exact_ops_def)

theorem invalid_time_end_raises:
  "main exact_ops [''nbody'', ''in'', ''abc''] star_files = Inl ValueError"
  by (simp add: main_def read_time_end_def exact_float_abc)

subsection \<open>The main loop\<close>

lemma samples_append: "samples (xs @ ys) = samples xs @ samples ys"
  by (simp add: samples_def map_filter_def)

lemma length_range1: "length (range1 n) = nat (n - 1)"
  by (simp add: range1_def)

lemma loop_body_effect:
  assumes "loop_body fo dt k st = Inr st'"
  shows "step_calls st' = Suc (step_calls st) \<and> energy0 st' = energy0 st \<and>
     (\<exists>new. printed_lines st' = printed_lines st @ new \<and> list_all is_progress new \<and>
        energy st' = (if samples new = [] then energy st else last (samples new)))"
proof (cases "k mod 100 = 0")
  case False
  with assms have "step_calls st' = Suc (step_calls st) \<and> energy0 st' = energy0 st \<and>
     printed_lines st' = printed_lines st @ [] \<and> energy st' = energy st"
    by (auto simp: loop_body_def Let_def split: sum.splits)
  then show ?thesis by (auto simp: samples_def map_filter_def intro!: exI [of _ "[]"])
next
  case True
  with assms obtain t en d where "step_calls st' = Suc (step_calls st)" "energy0 st' = energy0 st"
    "printed_lines st' = printed_lines st @ [Progress t en d]" "energy st' = en"
    by (auto simp: loop_body_def Let_def split: sum.splits)
  then show ?thesis
    by (auto simp: samples_def map_filter_def intro!: exI [of _ "[Progress t en d]"])
qed

lemma main_loop_effect:
  assumes "main_loop fo dt ks st = Inr st'"
  shows "step_calls st' = step_calls st + length ks \<and> energy0 st' = energy0 st \<and>
     (\<exists>new. printed_lines st' = printed_lines st @ new \<and> list_all is_progress new \<and>
        energy st' = (if samples new = [] then energy st else last (samples new)))"
  using assms
proof (induction ks arbitrary: st)
  case Nil
  then show ?case by (auto simp: samples_def map_filter_def intro!: exI [of _ "[]"])
next
  case (Cons k ks)
  from Cons.prems obtain st1 where b: "loop_body fo dt k st = Inr st1"
    and r: "main_loop fo dt ks st1 = Inr st'"
    by (auto split: sum.splits)
  from loop_body_effect [OF b] obtain new1 where
    1: "step_calls st1 = Suc (step_calls st)" "energy0 st1 = energy0 st"
    "printed_lines st1 = printed_lines st @ new1" "list_all is_progress new1"
    "energy st1 = (if samples new1 = [] then energy st else last (samples new1))"
    by blast
  from Cons.IH [OF r] obtain new2 where
    2: "step_calls st' = step_calls st1 + length ks" "energy0 st' = energy0 st1"
    "printed_lines st' = printed_lines st1 @ new2" "list_all is_progress new2"
    "energy st' = (if samples new2 = [] then energy st1 else last (samples new2))"
    by blast
  have "printed_lines st' = printed_lines st @ (new1 @ new2)" using 1 2 by simp
  moreover have "list_all is_progress (new1 @ new2)" using 1 2 by simp
  moreover have "energy st' = (if samples (new1 @ new2) = [] then energy st
                               else last (samples (new1 @ new2)))"
    using 1 2 by (simp add: samples_append)
  ultimately show ?case using 1 2 by (intro conjI exI [of _ "new1 @ new2"]) simp_all
qed

lemma main_returned:
  assumes "main fo argv files = Inr st"
  shows "\<exists>time_end q n ls drift.
     read_time_end fo argv = Inr time_end \<and>
     truediv fo time_end (lit fo (1/1000)) = Inr q \<and>
     int_of_float fo (fadd fo q (from_int fo 1)) = Inr n \<and>
     step_calls st = nat (n - 1) \<and>
     printed_lines st = ls @ [Final drift, Run_in] \<and> list_all is_progress ls \<and>
     truediv fo (fsub fo (if samples ls = [] then lit fo (- (1/4)) else last (samples ls))
                   (lit fo (- (1/4)))) (lit fo (- (1/4))) = Inr drift"
proof -
  from assms obtain time_end input_file loaded c0 q n st1 drift where
    t: "read_time_end fo argv = Inr time_end"
    and q: "truediv fo time_end (lit fo (1/1000)) = Inr q"
    and n: "int_of_float fo (fadd fo q (from_int fo 1)) = Inr n"
    and loop: "main_loop fo (lit fo (1/1000)) (range1 n)
                 \<lparr>cluster = c0, old_energy = lit fo (- (1/4)), energy0 = lit fo (- (1/4)),
                  energy = lit fo (- (1/4)), printed_lines = [], step_calls = 0\<rparr> = Inr st1"
    and d: "truediv fo (fsub fo (energy st1) (energy0 st1)) (energy0 st1) = Inr drift"
    and st: "st = st1\<lparr>printed_lines := printed_lines st1 @ [Final drift, Run_in]\<rparr>"
    by (auto simp: main_def Let_def split: sum.splits if_splits option.splits)
  from main_loop_effect [OF loop] obtain ls where
    calls: "step_calls st1 = length (range1 n)" and e0: "energy0 st1 = lit fo (- (1/4))"
    and ls: "printed_lines st1 = ls" "list_all is_progress ls"
    and en: "energy st1 = (if samples ls = [] then lit fo (- (1/4)) else last (samples ls))"
    by auto
  show ?thesis
    using t q n calls e0 ls en d
    by (intro exI [of _ time_end] exI [of _ q] exI [of _ n] exI [of _ ls] exI [of _ drift])
      (simp add: st length_range1)
qed

lemma eval_short_run:
  "main exact_ops [''nbody'', ''in'', ''0.0035''] star_files =
     Inr \<lparr>cluster = [\<lparr>mass = 2, position = (3/1000, 0, 0), velocity = (1, 0, 0),
                      acceleration = (0, 0, 0), previous_acceleration = (0, 0, 0)\<rparr>],
          old_energy = - (1/4), energy0 = - (1/4), energy = - (1/4),
          printed_lines = [Final 0, Run_in], step_calls = 3\<rparr>"
  by (simp add: main_def read_time_end_def star_files_def one_star_def load_line_def str_split_def
      isspace_def exact_ops_def decimal_def unsigned_decimal_def digit_def Particle_def
      accelerate_def truediv_def of_rat_divide of_rat_minus range1_def upto.simps loop_body_def
      step_def)

lemma eval_sampled_run:
  "\<exists>c. main exact_ops [''nbody'', ''in'', ''0.1005''] star_files =
     Inr \<lparr>cluster = c, old_energy = 1, energy0 = - (1/4), energy = 1,
          printed_lines = [Progress (1/10) 1 (- 5), Final (- 5), Run_in], step_calls = 100\<rparr>"
  by (simp add: main_def read_time_end_def star_files_def one_star_def load_line_def str_split_def
      isspace_def exact_ops_def decimal_def unsigned_decimal_def digit_def Particle_def
      accelerate_def truediv_def of_rat_divide of_rat_minus range1_def upto.simps loop_body_def
      step_def get_energy_def)

text \<open>
  C7, as the code has it. The loop variable runs over \<open>range(1, n)\<close> for
  \<open>n = int(time_end / time_step + 1)\<close> with \<open>time_step = 0.001\<close>, and the body calls
  \<open>cluster.step\<close> once: a run that ends normally has called it \<open>n - 1\<close> times (no
  time when \<open>n < 1\<close>), one less than the truncated quotient plus one.
\<close>

theorem main_step_calls:
  assumes "main fo argv files = Inr st"
  shows "\<exists>time_end q n.
     read_time_end fo argv = Inr time_end \<and>
     truediv fo time_end (lit fo (1/1000)) = Inr q \<and>
     int_of_float fo (fadd fo q (from_int fo 1)) = Inr n \<and>
     step_calls st = nat (n - 1)"
  using main_returned [OF assms] by blast

theorem main_step_calls_witness:
  "\<exists>st. main exact_ops [''nbody'', ''in'', ''0.0035''] star_files = Inr st \<and>
     read_time_end exact_ops [''nbody'', ''in'', ''0.0035''] = Inr (35/10000) \<and>
     truediv exact_ops (35/10000) (lit exact_ops (1/1000)) = Inr (7/2) \<and>
     int_of_float exact_ops (fadd exact_ops (7/2) (from_int exact_ops 1)) = Inr 4 \<and>
     step_calls st = nat (4 - 1)"
proof -
  from main_step_calls [OF eval_short_run]
  have "\<exists>time_end q n.
     read_time_end exact_ops [''nbody'', ''in'', ''0.0035''] = Inr time_end \<and>
     truediv exact_ops time_end (lit exact_ops (1/1000)) = Inr q \<and>
     int_of_float exact_ops (fadd exact_ops q (from_int exact_ops 1)) = Inr n \<and>
     (3::nat) = nat (n - 1)"
    by simp
  moreover have "read_time_end exact_ops [''nbody'', ''in'', ''0.0035''] = Inr (35/10000)"
    by (simp add: read_time_end_def exact_ops_def decimal_def unsigned_decimal_def digit_def
        of_rat_divide)
  moreover have "truediv exact_ops (35/10000) (lit exact_ops (1/1000)) = Inr (7/2)"
    by (simp add: truediv_def exact_ops_def of_rat_divide)
  moreover have "int_of_float exact_ops (fadd exact_ops (7/2) (from_int exact_ops 1)) = Inr 4"
    by (simp add: exact_ops_def)
  ultimately show ?thesis using eval_short_run by simp
qed

theorem step_count_off_by_one:
  "\<exists>st. main exact_ops [''nbody'', ''in'', ''0.0035''] star_files = Inr st \<and>
     read_time_end exact_ops [''nbody'', ''in'', ''0.0035''] = Inr (35/10000) \<and>
     truediv exact_ops (35/10000) (lit exact_ops (1/1000)) = Inr (7/2) \<and>
     int_of_float exact_ops (7/2) = Inr 3 \<and>
     step_calls st = 3 \<and> int (step_calls st) \<noteq> 3 + 1"
proof -
  have "read_time_end exact_ops [''nbody'', ''in'', ''0.0035''] = Inr (35/10000)"
    by (simp add: read_time_end_def exact_ops_def decimal_def unsigned_decimal_def digit_def
        of_rat_divide)
  moreover have "truediv exact_ops (35/10000) (lit exact_ops (1/1000)) = Inr (7/2)"
    by (simp add: truediv_def exact_ops_def of_rat_divide)
  moreover have "int_of_float exact_ops (7/2) = Inr 3"
    by (simp add: exact_ops_def)
  ultimately show ?thesis using eval_short_run by simp
qed

text \<open>
  C5, as the code has it. The reference energy of the final line is the constant
  \<open>-0.25\<close> that \<open>energy0\<close> is set to before the loop, not a sample of the run: a run
  that ends normally prints, after its progress lines, \<open>(E_last - (-0.25)) / (-0.25)\<close>,
  where \<open>E_last\<close> is the energy of the last progress line, or \<open>-0.25\<close> when there is
  none.
\<close>

theorem final_drift:
  assumes "main fo argv files = Inr st"
  shows "\<exists>ls drift.
     printed_lines st = ls @ [Final drift, Run_in] \<and> list_all is_progress ls \<and>
     truediv fo (fsub fo (if samples ls = [] then lit fo (- (1/4)) else last (samples ls))
                   (lit fo (- (1/4)))) (lit fo (- (1/4))) = Inr drift"
  using main_returned [OF assms] by blast

theorem final_drift_witness:
  "\<exists>st. main exact_ops [''nbody'', ''in'', ''0.1005''] star_files = Inr st \<and>
     printed_lines st = [Progress (1/10) 1 (- 5)] @ [Final (- 5), Run_in] \<and>
     samples [Progress (1/10) 1 (- 5)] = [1::real] \<and>
     truediv exact_ops (fsub exact_ops 1 (lit exact_ops (- (1/4)))) (lit exact_ops (- (1/4)))
       = Inr (- 5)"
proof -
  from eval_sampled_run obtain st where
    run: "main exact_ops [''nbody'', ''in'', ''0.1005''] star_files = Inr st"
    and ls: "printed_lines st = [Progress (1/10) 1 (- 5), Final (- 5), Run_in]"
    by auto
  from final_drift [OF run] obtain ls' drift where
    "printed_lines st = ls' @ [Final drift, Run_in]"
    "truediv exact_ops (fsub exact_ops (if samples ls' = [] then lit exact_ops (- (1/4))
        else last (samples ls')) (lit exact_ops (- (1/4)))) (lit exact_ops (- (1/4))) = Inr drift"
    by blast
  with ls have "truediv exact_ops (fsub exact_ops 1 (lit exact_ops (- (1/4))))
      (lit exact_ops (- (1/4))) = Inr (- 5)"
    by (simp add: samples_def map_filter_def)
  with run ls show ?thesis by (simp add: samples_def map_filter_def)
qed

theorem final_drift_not_first_sample:
  "\<exists>st. main exact_ops [''nbody'', ''in'', ''0.1005''] star_files = Inr st \<and>
     printed_lines st = [Progress (1/10) 1 (- 5), Final (- 5), Run_in] \<and>
     samples (printed_lines st) = [1] \<and>
     truediv exact_ops (fsub exact_ops (last (samples (printed_lines st)))
                          (hd (samples (printed_lines st))))
       (hd (samples (printed_lines st))) = Inr 0"
proof -
  from eval_sampled_run obtain st where
    "main exact_ops [''nbody'', ''in'', ''0.1005''] star_files = Inr st"
    "printed_lines st = [Progress (1/10) 1 (- 5), Final (- 5), Run_in]"
    by auto
  then show ?thesis
    by (intro exI [of _ st]) (simp add: samples_def map_filter_def truediv_def exact_ops_def)
qed

end
